theory Spec2Isabelle
  imports Main
begin

section \<open>Data model of the token indexer\<close>

text \<open>
  The TypeScript services of the indexer are embedded as functions over one explicit
  \<open>system\<close> state: the three TypeORM repositories are tables (lists of rows, in
  insertion order), the three Bull queues are records of job lists. A \<open>bigint\<close> column
  that the entity keeps as a decimal string is an \<open>int\<close>. Columns generated by the
  storage layer (\<open>id\<close>, \<open>createdAt\<close>, and the automatic refresh of \<open>updatedAt\<close>) are left
  out; \<open>updatedAt\<close> and \<open>processedAt\<close> are written where the source writes \<open>new Date()\<close>.
  A rejected promise or a thrown exception is the \<open>Inl\<close> branch of a sum. The storage
  collaborator is a reliable in-memory table; the ledger client's answers are inputs
  (\<open>ledger\<close>), and a queue rejects every call while it is not \<open>connected\<close>.
  Logger calls are only kept where a property is about them.
\<close>

datatype error = Error string | TypeError string

fun message :: "error \<Rightarrow> string" where
  "message (Error m) = m"
| "message (TypeError m) = m"

text \<open>\<open>String.prototype.toLowerCase\<close> on ASCII text (addresses are hexadecimal).\<close>

definition lowerChar :: "char \<Rightarrow> char" where
  "lowerChar c =
     (case map_of (zip ''ABCDEFGHIJKLMNOPQRSTUVWXYZ'' ''abcdefghijklmnopqrstuvwxyz'') c of
        Some l \<Rightarrow> l
      | None \<Rightarrow> c)"

definition toLowerCase :: "string \<Rightarrow> string" where
  "toLowerCase s = map lowerChar s"

text \<open>
  The entities and job payloads, field by field; a prefix keeps the field names of the
  records apart. A JavaScript number that holds a block number, an index or a count is
  an \<open>int\<close> (\<open>NaN\<close> and rounding above \<open>2^53\<close> are left out). The arguments of an event
  are strings: \<open>getTokenEvents\<close> has turned every \<open>bigint\<close> into its decimal text.
\<close>

record TokenEvent =
  ev_transactionHash :: string
  ev_logIndex :: int
  ev_blockNumber :: int
  ev_blockHash :: string
  ev_contractAddress :: string
  ev_eventName :: string
  ev_args :: "string list"

record TokenTransfer =
  tt_transactionHash :: string
  tt_logIndex :: int
  tt_blockNumber :: int
  tt_blockHash :: string
  tt_contractAddress :: string
  tt_fromAddress :: string
  tt_toAddress :: string
  tt_value :: string
  tt_chainId :: int
  tt_processedAt :: int

record IndexingProgress =
  ip_contractAddress :: string
  ip_chainId :: int
  ip_lastProcessedBlock :: int
  ip_isSyncing :: bool
  ip_syncStartBlock :: int
  ip_totalEventsProcessed :: int
  ip_updatedAt :: int

record FailedEvent =
  fe_contractAddress :: string
  fe_chainId :: int
  fe_blockNumber :: int
  fe_transactionHash :: string
  fe_logIndex :: int
  fe_eventData :: TokenEvent
  fe_errorMessage :: string
  fe_retryCount :: int

record IndexingJob =
  ij_contractAddress :: string
  ij_chainId :: int
  ij_fromBlock :: int
  ij_toBlock :: int
  ij_events :: "string list"

record ProcessEventJob =
  pe_event :: TokenEvent
  pe_contractAddress :: string
  pe_chainId :: int

subsection \<open>The work queues\<close>

datatype job_data =
    StartIndexingData string int "string list"
  | BlockRangeData IndexingJob
  | EventData ProcessEventJob

fun data_contractAddress :: "job_data \<Rightarrow> string" where
  "data_contractAddress (StartIndexingData a c es) = a"
| "data_contractAddress (BlockRangeData j) = ij_contractAddress j"
| "data_contractAddress (EventData j) = pe_contractAddress j"

fun data_chainId :: "job_data \<Rightarrow> int" where
  "data_chainId (StartIndexingData a c es) = c"
| "data_chainId (BlockRangeData j) = ij_chainId j"
| "data_chainId (EventData j) = pe_chainId j"

record job_opts =
  opt_priority :: "int option"
  opt_delay :: "int option"
  opt_attempts :: "int option"
  opt_backoff :: "(string \<times> int) option"

record job =
  job_name :: string
  job_data :: job_data
  job_opts :: job_opts

text \<open>
  A Bull queue as far as the services use it: the jobs waiting to run, the jobs held back
  by a delay, whether the connection to the store behind it is up, and whether it has
  been closed. A job added with a positive delay is delayed, any other is waiting.
\<close>

record queue =
  waiting :: "job list"
  delayed :: "job list"
  connected :: bool
  closed :: bool

definition queue_add :: "queue \<Rightarrow> string \<Rightarrow> job_data \<Rightarrow> job_opts \<Rightarrow> error + queue" where
  "queue_add q name d opts =
     (if \<not> connected q then Inl (Error ''Connection is closed.'')
      else (let j = \<lparr>job_name = name, job_data = d, job_opts = opts\<rparr> in
        case opt_delay opts of
          Some ms \<Rightarrow> if 0 < ms then Inr (q\<lparr>delayed := delayed q @ [j]\<rparr>)
                     else Inr (q\<lparr>waiting := waiting q @ [j]\<rparr>)
        | None \<Rightarrow> Inr (q\<lparr>waiting := waiting q @ [j]\<rparr>)))"

fun queue_addBulk :: "queue \<Rightarrow> (string \<times> job_data \<times> job_opts) list \<Rightarrow> error + queue" where
  "queue_addBulk q [] = (if connected q then Inr q else Inl (Error ''Connection is closed.''))"
| "queue_addBulk q ((name, d, opts) # js) =
     (case queue_add q name d opts of
        Inl e \<Rightarrow> Inl e
      | Inr q' \<Rightarrow> queue_addBulk q' js)"

subsection \<open>The system state and the repositories\<close>

record system =
  tokenTransferRepository :: "TokenTransfer list"
  indexingProgressRepository :: "IndexingProgress list"
  failedEventRepository :: "FailedEvent list"
  indexingQueue :: queue
  blockProcessingQueue :: queue
  eventProcessingQueue :: queue
  clock :: int

type_synonym 'a outcome = "(error + 'a) \<times> system"

text \<open>\<open>findOne({ where: { transactionHash, logIndex } })\<close> on the transfer table.\<close>

definition findOne_transfer :: "string \<Rightarrow> int \<Rightarrow> TokenTransfer list \<Rightarrow> TokenTransfer option" where
  "findOne_transfer h i rows =
     find (\<lambda>t. tt_transactionHash t = h \<and> tt_logIndex t = i) rows"

text \<open>\<open>findOne({ where: { contractAddress, chainId } })\<close> on the progress table.\<close>

definition findOne_progress :: "string \<Rightarrow> int \<Rightarrow> IndexingProgress list \<Rightarrow> IndexingProgress option" where
  "findOne_progress a c rows =
     find (\<lambda>r. ip_contractAddress r = a \<and> ip_chainId r = c) rows"

text \<open>\<open>update(criteria, partial)\<close>: every row that meets the criteria is rewritten.\<close>

definition update_where :: "('r \<Rightarrow> bool) \<Rightarrow> ('r \<Rightarrow> 'r) \<Rightarrow> 'r list \<Rightarrow> 'r list" where
  "update_where crit f rows = map (\<lambda>r. if crit r then f r else r) rows"

definition is_entity :: "string \<Rightarrow> int \<Rightarrow> IndexingProgress \<Rightarrow> bool" where
  "is_entity a c r \<longleftrightarrow> ip_contractAddress r = a \<and> ip_chainId r = c"

subsection \<open>The event applier: \<open>IndexingService.processTokenEvent\<close>\<close>

definition processTransferEvent :: "TokenEvent \<Rightarrow> string \<Rightarrow> int \<Rightarrow> system \<Rightarrow> unit outcome" where
  "processTransferEvent event contractAddress chainId s =
     (case ev_args event of
        from # to # val # rest \<Rightarrow>
          (let transfer = \<lparr>
                 tt_transactionHash = ev_transactionHash event,
                 tt_logIndex = ev_logIndex event,
                 tt_blockNumber = ev_blockNumber event,
                 tt_blockHash = ev_blockHash event,
                 tt_contractAddress = toLowerCase contractAddress,
                 tt_fromAddress = toLowerCase from,
                 tt_toAddress = toLowerCase to,
                 tt_value = val,
                 tt_chainId = chainId,
                 tt_processedAt = clock s\<rparr>
           in (Inr (), s\<lparr>tokenTransferRepository := tokenTransferRepository s @ [transfer]\<rparr>))
      | [from, to] \<Rightarrow>
          (Inl (TypeError ''Cannot read properties of undefined (reading 'toString')''), s)
      | _ \<Rightarrow>
          (Inl (TypeError ''Cannot read properties of undefined (reading 'toLowerCase')''), s))"

definition storeFailedEvent :: "TokenEvent \<Rightarrow> string \<Rightarrow> int \<Rightarrow> string \<Rightarrow> system \<Rightarrow> system" where
  "storeFailedEvent event contractAddress chainId errorMessage s =
     (let failedEvent = \<lparr>
            fe_contractAddress = toLowerCase contractAddress,
            fe_chainId = chainId,
            fe_blockNumber = ev_blockNumber event,
            fe_transactionHash = ev_transactionHash event,
            fe_logIndex = ev_logIndex event,
            fe_eventData = event,
            fe_errorMessage = errorMessage,
            fe_retryCount = 0\<rparr>
      in s\<lparr>failedEventRepository := failedEventRepository s @ [failedEvent]\<rparr>)"

text \<open>
  The body of the \<open>try\<close> block: the early \<open>return\<close> for an event that is already stored,
  then the dispatch on the event name, then the increment of the counter.
\<close>

definition processTokenEvent_try :: "ProcessEventJob \<Rightarrow> system \<Rightarrow> unit outcome" where
  "processTokenEvent_try data s =
     (let event = pe_event data; contractAddress = pe_contractAddress data;
          chainId = pe_chainId data
      in case findOne_transfer (ev_transactionHash event) (ev_logIndex event)
                (tokenTransferRepository s) of
           Some existing \<Rightarrow> (Inr (), s)
         | None \<Rightarrow>
            (case (if ev_eventName event = ''Transfer''
                   then processTransferEvent event contractAddress chainId s
                   else if ev_eventName event = ''Approval'' then (Inr (), s)
                   else (Inr (), s)) of
               (Inl e, s1) \<Rightarrow> (Inl e, s1)
             | (Inr u, s1) \<Rightarrow>
                 (Inr (), s1\<lparr>indexingProgressRepository :=
                    update_where (is_entity contractAddress chainId)
                      (\<lambda>r. r\<lparr>ip_totalEventsProcessed := ip_totalEventsProcessed r + 1\<rparr>)
                      (indexingProgressRepository s1)\<rparr>)))"

definition processTokenEvent :: "ProcessEventJob \<Rightarrow> system \<Rightarrow> unit outcome" where
  "processTokenEvent data s =
     (case processTokenEvent_try data s of
        (Inl e, s1) \<Rightarrow>
          (Inl e, storeFailedEvent (pe_event data) (pe_contractAddress data) (pe_chainId data)
                    (message e) s1)
      | (Inr u, s1) \<Rightarrow> (Inr (), s1))"

subsection \<open>Configuration and ledger client\<close>

datatype start_block = Latest | Number int

record ContractConfig =
  cc_address :: string
  cc_chainId :: int
  cc_startBlock :: start_block
  cc_events :: "string list"
  cc_enabled :: bool

text \<open>
  \<open>indexing.contracts\<close> is an object: its keys with their values, in insertion order.
  \<open>batchSize\<close> is \<open>blockchain.polygon.batchSize\<close>.
\<close>

record config =
  contracts :: "(string \<times> ContractConfig) list"
  batchSize :: int

text \<open>
  What the ledger client answers during one operation: the current height (or the
  rejection of the query), whether an address holds contract code
  (\<open>validateContractAddress\<close> catches its own errors and answers \<open>false\<close>), and the
  events of a block range.
\<close>

record ledger =
  getCurrentBlockNumber :: "error + int"
  validateContractAddress :: "string \<Rightarrow> bool"
  getTokenEvents :: "string \<Rightarrow> string list \<Rightarrow> int \<Rightarrow> int \<Rightarrow> error + TokenEvent list"

text \<open>
  The first key whose contract has the address; \<open>contractKey ? contracts[contractKey] : null\<close>
  then answers \<open>null\<close> for the empty key, which is falsy.
\<close>

definition getContractConfig :: "config \<Rightarrow> string \<Rightarrow> ContractConfig option" where
  "getContractConfig cfg contractAddress =
     (case find (\<lambda>(key, c). toLowerCase (cc_address c) = toLowerCase contractAddress)
             (contracts cfg) of
        None \<Rightarrow> None
      | Some (contractKey, c) \<Rightarrow> if contractKey = [] then None else Some c)"

subsection \<open>The sync coordinator: \<open>IndexingService\<close>\<close>

definition getIndexingStatus :: "string \<Rightarrow> int \<Rightarrow> system \<Rightarrow> IndexingProgress option" where
  "getIndexingStatus contractAddress chainId s =
     findOne_progress (toLowerCase contractAddress) chainId (indexingProgressRepository s)"

definition updateSyncingStatus :: "string \<Rightarrow> int \<Rightarrow> bool \<Rightarrow> system \<Rightarrow> system" where
  "updateSyncingStatus contractAddress chainId isSyncing s =
     s\<lparr>indexingProgressRepository :=
         update_where (is_entity (toLowerCase contractAddress) chainId)
           (\<lambda>r. r\<lparr>ip_isSyncing := isSyncing\<rparr>) (indexingProgressRepository s)\<rparr>"

definition startIndexing :: "config \<Rightarrow> ledger \<Rightarrow> string \<Rightarrow> system \<Rightarrow> unit outcome" where
  "startIndexing cfg ldg contractAddress s =
     (case getContractConfig cfg contractAddress of
        None \<Rightarrow>
          (Inl (Error (''Contract '' @ contractAddress @ '' not configured or disabled'')), s)
      | Some contractConfig \<Rightarrow>
          if \<not> cc_enabled contractConfig then
            (Inl (Error (''Contract '' @ contractAddress @ '' not configured or disabled'')), s)
          else if \<not> validateContractAddress ldg contractAddress then
            (Inl (Error (''Invalid contract address: '' @ contractAddress)), s)
          else
            (case (case findOne_progress (toLowerCase contractAddress) (cc_chainId contractConfig)
                          (indexingProgressRepository s) of
                     None \<Rightarrow>
                       (case getCurrentBlockNumber ldg of
                          Inl e \<Rightarrow> (Inl e, s)
                        | Inr currentBlock \<Rightarrow>
                            (let startBlock =
                                   (case cc_startBlock contractConfig of
                                      Latest \<Rightarrow> currentBlock
                                    | Number n \<Rightarrow> n);
                                 progress = \<lparr>
                                   ip_contractAddress = toLowerCase contractAddress,
                                   ip_chainId = cc_chainId contractConfig,
                                   ip_lastProcessedBlock = startBlock - 1,
                                   ip_isSyncing = True,
                                   ip_syncStartBlock = startBlock,
                                   ip_totalEventsProcessed = 0,
                                   ip_updatedAt = clock s\<rparr>
                             in (Inr (), s\<lparr>indexingProgressRepository :=
                                             indexingProgressRepository s @ [progress]\<rparr>)))
                   | Some progress \<Rightarrow>
                       (Inr (), s\<lparr>indexingProgressRepository :=
                                   update_where
                                     (is_entity (toLowerCase contractAddress)
                                        (cc_chainId contractConfig))
                                     (\<lambda>r. r\<lparr>ip_isSyncing := True\<rparr>)
                                     (indexingProgressRepository s)\<rparr>)) of
               (Inl e, s1) \<Rightarrow> (Inl e, s1)
             | (Inr u, s1) \<Rightarrow>
                 (case queue_add (indexingQueue s1) ''start-indexing''
                         (StartIndexingData (toLowerCase contractAddress)
                            (cc_chainId contractConfig) (cc_events contractConfig))
                         \<lparr>opt_priority = Some 1, opt_delay = Some 0, opt_attempts = None,
                          opt_backoff = None\<rparr> of
                    Inl e \<Rightarrow> (Inl e, s1)
                  | Inr q \<Rightarrow> (Inr (), s1\<lparr>indexingQueue := q\<rparr>))))"

definition processBlockRange :: "ledger \<Rightarrow> IndexingJob \<Rightarrow> system \<Rightarrow> unit outcome" where
  "processBlockRange ldg job s =
     (let contractAddress = ij_contractAddress job; chainId = ij_chainId job;
          fromBlock = ij_fromBlock job; toBlock = ij_toBlock job; events = ij_events job
      in case getTokenEvents ldg contractAddress events fromBlock toBlock of
           Inl e \<Rightarrow> (Inl e, s)
         | Inr tokenEvents \<Rightarrow>
            (let eventJobs =
                   map (\<lambda>event. \<lparr>pe_event = event, pe_contractAddress = contractAddress,
                                  pe_chainId = chainId\<rparr>) tokenEvents
             in case (if 0 < length eventJobs
                      then queue_addBulk (eventProcessingQueue s)
                             (map (\<lambda>j. (''process-event'', EventData j,
                                         \<lparr>opt_priority = None, opt_delay = None,
                                          opt_attempts = Some 3,
                                          opt_backoff = Some (''exponential'', 2000)\<rparr>))
                                eventJobs)
                      else Inr (eventProcessingQueue s)) of
                  Inl e \<Rightarrow> (Inl e, s)
                | Inr q \<Rightarrow>
                   (Inr (), s\<lparr>eventProcessingQueue := q,
                              indexingProgressRepository :=
                                update_where (is_entity contractAddress chainId)
                                  (\<lambda>r. r\<lparr>ip_lastProcessedBlock := toBlock\<rparr>)
                                  (indexingProgressRepository s)\<rparr>)))"

text \<open>
  \<open>removeContractJobs\<close>: for one queue, read the waiting and the delayed jobs and remove
  those of the contract; a queue that is not connected rejects the first read.
\<close>

definition job_matches :: "string \<Rightarrow> int \<Rightarrow> job \<Rightarrow> bool" where
  "job_matches contractAddress chainId j \<longleftrightarrow>
     data_contractAddress (job_data j) \<noteq> [] \<and>
     toLowerCase (data_contractAddress (job_data j)) = toLowerCase contractAddress \<and>
     data_chainId (job_data j) = chainId"

definition queue_removePending :: "string \<Rightarrow> int \<Rightarrow> queue \<Rightarrow> error + queue" where
  "queue_removePending contractAddress chainId q =
     (if \<not> connected q then Inl (Error ''Connection is closed.'')
      else Inr (q\<lparr>waiting := filter (\<lambda>j. \<not> job_matches contractAddress chainId j) (waiting q),
                  delayed := filter (\<lambda>j. \<not> job_matches contractAddress chainId j) (delayed q)\<rparr>))"

definition removeContractJobs_try :: "string \<Rightarrow> int \<Rightarrow> system \<Rightarrow> unit outcome" where
  "removeContractJobs_try contractAddress chainId s =
     (case queue_removePending contractAddress chainId (indexingQueue s) of
        Inl e \<Rightarrow> (Inl e, s)
      | Inr q1 \<Rightarrow>
         (let s1 = s\<lparr>indexingQueue := q1\<rparr>
          in case queue_removePending contractAddress chainId (blockProcessingQueue s1) of
               Inl e \<Rightarrow> (Inl e, s1)
             | Inr q2 \<Rightarrow>
                (let s2 = s1\<lparr>blockProcessingQueue := q2\<rparr>
                 in case queue_removePending contractAddress chainId (eventProcessingQueue s2) of
                      Inl e \<Rightarrow> (Inl e, s2)
                    | Inr q3 \<Rightarrow> (Inr (), s2\<lparr>eventProcessingQueue := q3\<rparr>))))"

text \<open>The \<open>catch\<close> of \<open>removeContractJobs\<close> logs the error and does not rethrow it.\<close>

definition removeContractJobs :: "string \<Rightarrow> int \<Rightarrow> system \<Rightarrow> unit outcome" where
  "removeContractJobs contractAddress chainId s =
     (case removeContractJobs_try contractAddress chainId s of
        (Inl e, s1) \<Rightarrow> (Inr (), s1)
      | (Inr u, s1) \<Rightarrow> (Inr (), s1))"

definition stopIndexing :: "string \<Rightarrow> int \<Rightarrow> system \<Rightarrow> unit outcome" where
  "stopIndexing contractAddress chainId s =
     (case findOne_progress (toLowerCase contractAddress) chainId
             (indexingProgressRepository s) of
        None \<Rightarrow>
          (Inl (Error (''No indexing progress found for contract '' @ contractAddress)), s)
      | Some progress \<Rightarrow>
          (let s1 = s\<lparr>indexingProgressRepository :=
                        update_where (is_entity (toLowerCase contractAddress) chainId)
                          (\<lambda>r. r\<lparr>ip_isSyncing := False\<rparr>) (indexingProgressRepository s)\<rparr>
           in case removeContractJobs contractAddress chainId s1 of
                (Inl e, s2) \<Rightarrow> (Inl e, s2)
              | (Inr u, s2) \<Rightarrow> (Inr (), s2)))"

subsection \<open>The batch scheduler: \<open>IndexingProcessor\<close>\<close>

definition scheduleNextIndexing ::
  "string \<Rightarrow> int \<Rightarrow> string list \<Rightarrow> int \<Rightarrow> system \<Rightarrow> unit outcome" where
  "scheduleNextIndexing contractAddress chainId events delay s =
     (case queue_add (indexingQueue s) ''start-indexing''
             (StartIndexingData contractAddress chainId events)
             \<lparr>opt_priority = None, opt_delay = Some delay, opt_attempts = Some 1,
              opt_backoff = None\<rparr> of
        Inl e \<Rightarrow> (Inl e, s)
      | Inr q \<Rightarrow> (Inr (), s\<lparr>indexingQueue := q\<rparr>))"

text \<open>\<open>p?.isSyncing\<close> as a condition: false for a missing row.\<close>

definition syncing :: "IndexingProgress option \<Rightarrow> bool" where
  "syncing p = (case p of None \<Rightarrow> False | Some r \<Rightarrow> ip_isSyncing r)"

text \<open>
  The \<open>while (fromBlock <= currentBlock)\<close> loop of \<open>handleStartIndexing\<close>. The result
  \<open>Inr True\<close> is the normal end of the loop, \<open>Inr False\<close> the \<open>return\<close> taken when the flag
  was found cleared. With a \<open>batchSize\<close> below 1 the loop does not end; the value is then
  \<open>None\<close>.
\<close>

partial_function (option) batchLoop ::
  "int \<Rightarrow> string \<Rightarrow> int \<Rightarrow> string list \<Rightarrow> int \<Rightarrow> int \<Rightarrow> system \<Rightarrow> ((error + bool) \<times> system) option"
where
  "batchLoop bsize contractAddress chainId events currentBlock fromBlock s =
     (if fromBlock \<le> currentBlock then
        (if \<not> syncing (getIndexingStatus contractAddress chainId s) then Some (Inr False, s)
         else
           (let toBlock = min (fromBlock + bsize - 1) currentBlock
            in case queue_add (blockProcessingQueue s) ''process-block-range''
                      (BlockRangeData \<lparr>ij_contractAddress = contractAddress,
                         ij_chainId = chainId, ij_fromBlock = fromBlock,
                         ij_toBlock = toBlock, ij_events = events\<rparr>)
                      \<lparr>opt_priority = None, opt_delay = None, opt_attempts = Some 3,
                       opt_backoff = Some (''exponential'', 5000)\<rparr> of
                 Inl e \<Rightarrow> Some (Inl e, s)
               | Inr q \<Rightarrow>
                   batchLoop bsize contractAddress chainId events currentBlock (toBlock + 1)
                     (s\<lparr>blockProcessingQueue := q\<rparr>)))
      else Some (Inr True, s))"

definition handleStartIndexing_try ::
  "config \<Rightarrow> ledger \<Rightarrow> string \<Rightarrow> int \<Rightarrow> string list \<Rightarrow> system \<Rightarrow> (unit outcome) option" where
  "handleStartIndexing_try cfg ldg contractAddress chainId events s =
     (case getIndexingStatus contractAddress chainId s of
        None \<Rightarrow>
          Some (Inl (Error (''No indexing progress found for contract '' @ contractAddress)), s)
      | Some progress \<Rightarrow>
          if \<not> ip_isSyncing progress then Some (Inr (), s)
          else
            (case getCurrentBlockNumber ldg of
               Inl e \<Rightarrow> Some (Inl e, s)
             | Inr currentBlock \<Rightarrow>
                (let lastProcessedBlock = ip_lastProcessedBlock progress
                 in if lastProcessedBlock \<ge> currentBlock - 1 then
                      Some (scheduleNextIndexing contractAddress chainId events 30000
                              (updateSyncingStatus contractAddress chainId False s))
                    else
                      (case batchLoop (batchSize cfg) contractAddress chainId events
                              currentBlock (lastProcessedBlock + 1) s of
                         None \<Rightarrow> None
                       | Some (Inl e, s1) \<Rightarrow> Some (Inl e, s1)
                       | Some (Inr False, s1) \<Rightarrow> Some (Inr (), s1)
                       | Some (Inr True, s1) \<Rightarrow>
                           if syncing (getIndexingStatus contractAddress chainId s1)
                           then Some (scheduleNextIndexing contractAddress chainId events
                                        60000 s1)
                           else Some (Inr (), s1)))))"

text \<open>The \<open>catch\<close> of \<open>handleStartIndexing\<close> clears the flag and rethrows.\<close>

definition handleStartIndexing ::
  "config \<Rightarrow> ledger \<Rightarrow> string \<Rightarrow> int \<Rightarrow> string list \<Rightarrow> system \<Rightarrow> (unit outcome) option" where
  "handleStartIndexing cfg ldg contractAddress chainId events s =
     (case handleStartIndexing_try cfg ldg contractAddress chainId events s of
        None \<Rightarrow> None
      | Some (Inl e, s1) \<Rightarrow> Some (Inl e, updateSyncingStatus contractAddress chainId False s1)
      | Some (Inr u, s1) \<Rightarrow> Some (Inr (), s1))"

subsection \<open>Startup recovery: \<open>AutoResumeService\<close>\<close>

text \<open>
  The recovery pass is followed through the calls it makes on its collaborators: the bulk
  update that clears the flags, and each call of \<open>IndexingService.startIndexing\<close> with
  the address passed.
\<close>

datatype resume_call = ResetStuckCall | StartIndexingCall string

definition resetStuckSyncingStates :: "system \<Rightarrow> system" where
  "resetStuckSyncingStates s =
     s\<lparr>indexingProgressRepository :=
         update_where (\<lambda>r. ip_isSyncing r = True)
           (\<lambda>r. r\<lparr>ip_isSyncing := False, ip_updatedAt := clock s\<rparr>)
           (indexingProgressRepository s)\<rparr>"

text \<open>An error of \<open>startIndexing\<close> is caught and logged; the state it left stays.\<close>

definition resumeContractIndexing ::
  "config \<Rightarrow> ledger \<Rightarrow> ContractConfig \<Rightarrow> resume_call list \<times> system \<Rightarrow> resume_call list \<times> system" where
  "resumeContractIndexing cfg ldg contract cs =
     (case cs of (calls, s) \<Rightarrow>
        (case findOne_progress (toLowerCase (cc_address contract)) (cc_chainId contract)
                (indexingProgressRepository s) of
           Some progress \<Rightarrow>
             (calls @ [StartIndexingCall (cc_address contract)],
              snd (startIndexing cfg ldg (cc_address contract) s))
         | None \<Rightarrow> (calls, s)))"

definition resumeIndexing :: "config \<Rightarrow> ledger \<Rightarrow> system \<Rightarrow> resume_call list \<times> system" where
  "resumeIndexing cfg ldg s =
     (let s1 = resetStuckSyncingStates s;
          enabledContracts = filter cc_enabled (map snd (contracts cfg))
      in fold (resumeContractIndexing cfg ldg) enabledContracts ([ResetStuckCall], s1))"

subsection \<open>Shutdown drain: \<open>ShutdownService\<close>\<close>

text \<open>
  What the shutdown service logs, in order. While the service waits, the other workers
  go on finishing jobs, so the answer of \<open>getActive\<close> is an input: it depends on the
  time of the call and on the queue. One round of the loop lasts the 1000 ms of the timer
  plus \<open>overrun\<close>, the time the three reads took and the lateness of the timer.
\<close>

datatype shutdown_log =
    ShutdownInitiated
  | MarkedStopped nat
  | WaitingForJobs
  | QueueActive string nat
  | GetActiveFailed string
  | AllJobsCompleted
  | TimeoutReached
  | ClosedQueue string
  | CloseFailed string
  | ShutdownCompleted

record shutdown_env =
  getActive :: "int \<Rightarrow> string \<Rightarrow> error + job list"
  overrun :: "int \<Rightarrow> nat"

definition markSyncingAsStopped :: "system \<times> shutdown_log list \<Rightarrow> system \<times> shutdown_log list" where
  "markSyncingAsStopped sl =
     (case sl of (s, lg) \<Rightarrow>
        (let affected = length (filter (\<lambda>r. ip_isSyncing r = True) (indexingProgressRepository s));
             s1 = s\<lparr>indexingProgressRepository :=
                      update_where (\<lambda>r. ip_isSyncing r = True)
                        (\<lambda>r. r\<lparr>ip_isSyncing := False, ip_updatedAt := clock s\<rparr>)
                        (indexingProgressRepository s)\<rparr>
         in (s1, if 0 < affected then lg @ [MarkedStopped affected] else lg)))"

text \<open>The inner \<open>for\<close> loop: one read of the active jobs per queue, a failed read counts 0.\<close>

fun countActive :: "shutdown_env \<Rightarrow> int \<Rightarrow> string list \<Rightarrow> nat \<times> shutdown_log list \<Rightarrow> nat \<times> shutdown_log list" where
  "countActive env now [] acc = acc"
| "countActive env now (name # names) (totalActiveJobs, lg) =
     (case getActive env now name of
        Inr active \<Rightarrow>
          countActive env now names
            (totalActiveJobs + length active,
             if 0 < length active then lg @ [QueueActive name (length active)] else lg)
      | Inl e \<Rightarrow> countActive env now names (totalActiveJobs, lg @ [GetActiveFailed name]))"

definition queueNames :: "string list" where
  "queueNames = [''indexing'', ''block-processing'', ''event-processing'']"

function waitLoop ::
  "shutdown_env \<Rightarrow> int \<Rightarrow> int \<Rightarrow> system \<times> shutdown_log list \<Rightarrow> system \<times> shutdown_log list" where
  "waitLoop env timeoutMs startTime (s, lg) =
     (if clock s - startTime < timeoutMs then
        (case countActive env (clock s) queueNames (0, lg) of
           (totalActiveJobs, lg1) \<Rightarrow>
             if totalActiveJobs = 0 then (s, lg1 @ [AllJobsCompleted])
             else waitLoop env timeoutMs startTime
                    (s\<lparr>clock := clock s + 1000 + int (overrun env (clock s))\<rparr>, lg1))
      else (s, lg @ [TimeoutReached]))"
  by pat_completeness auto
termination
  by (relation "measure (\<lambda>(env, timeoutMs, startTime, s, lg). nat (timeoutMs - (clock s - startTime)))")
     auto

declare waitLoop.simps [simp del]

definition waitForActiveJobs ::
  "shutdown_env \<Rightarrow> int \<Rightarrow> system \<times> shutdown_log list \<Rightarrow> system \<times> shutdown_log list" where
  "waitForActiveJobs env timeoutMs sl =
     (case sl of (s, lg) \<Rightarrow> waitLoop env timeoutMs (clock s) (s, lg @ [WaitingForJobs]))"

definition queue_close :: "queue \<Rightarrow> error + queue" where
  "queue_close q =
     (if \<not> connected q then Inl (Error ''Connection is closed.'')
      else Inr (q\<lparr>closed := True\<rparr>))"

definition closeQueues :: "system \<times> shutdown_log list \<Rightarrow> system \<times> shutdown_log list" where
  "closeQueues sl =
     (case sl of (s, lg) \<Rightarrow>
        (let (s1, lg1) =
               (case queue_close (indexingQueue s) of
                  Inr q \<Rightarrow> (s\<lparr>indexingQueue := q\<rparr>, lg @ [ClosedQueue ''indexing''])
                | Inl e \<Rightarrow> (s, lg @ [CloseFailed ''indexing'']));
             (s2, lg2) =
               (case queue_close (blockProcessingQueue s1) of
                  Inr q \<Rightarrow> (s1\<lparr>blockProcessingQueue := q\<rparr>, lg1 @ [ClosedQueue ''block-processing''])
                | Inl e \<Rightarrow> (s1, lg1 @ [CloseFailed ''block-processing'']))
         in (case queue_close (eventProcessingQueue s2) of
               Inr q \<Rightarrow> (s2\<lparr>eventProcessingQueue := q\<rparr>, lg2 @ [ClosedQueue ''event-processing''])
             | Inl e \<Rightarrow> (s2, lg2 @ [CloseFailed ''event-processing'']))))"

text \<open>\<open>waitForActiveJobs()\<close> is called without argument: the timeout is its default.\<close>

definition defaultTimeoutMs :: int where
  "defaultTimeoutMs = 30000"

definition onApplicationShutdown :: "shutdown_env \<Rightarrow> system \<Rightarrow> system \<times> shutdown_log list" where
  "onApplicationShutdown env s =
     (case closeQueues
             (waitForActiveJobs env defaultTimeoutMs
                (markSyncingAsStopped (s, [ShutdownInitiated]))) of
        (s', lg) \<Rightarrow> (s', lg @ [ShutdownCompleted]))"

subsection \<open>Health monitor: \<open>HealthMonitoringService\<close>\<close>

text \<open>
  The health check only reads. Each call it makes on a collaborator is an input with
  its own outcome, so that any call may fail while another succeeds: the two height
  queries (\<open>latestBlock\<close> in \<open>checkBlockchainHealth\<close>, \<open>currentBlock\<close> in
  \<open>checkIndexingHealth\<close>), the two configuration reads, \<open>find()\<close> on the progress
  repository, the \<open>SUM\<close> query on it and \<open>count()\<close> on the failed-event repository.
\<close>

datatype health_status = healthy | degraded | unhealthy

record blockchain_health =
  bh_connected :: bool
  bh_latestBlock :: "int option"
  bh_rpcUrl :: string

record indexing_health =
  ih_totalContracts :: nat
  ih_activelyIndexing :: nat
  ih_syncLag :: "(string \<times> int) list"
  ih_avgProcessingTime :: int

record database_health =
  dh_connected :: bool
  dh_totalEvents :: int
  dh_failedEvents :: nat

record queue_health =
  qh_healthy :: bool
  qh_estimatedJobs :: nat

record SystemHealthStatus =
  hs_status :: health_status
  hs_timestamp :: int
  hs_uptime :: int
  hs_blockchain :: blockchain_health
  hs_indexing :: indexing_health
  hs_database :: database_health
  hs_queue :: queue_health
  hs_issues :: "string list"

record health_env =
  he_latestBlock :: "error + int"
  he_currentBlock :: "error + int"
  he_rpcUrl :: "error + string option"
  he_contracts :: "error + ContractConfig list"
  he_allProgress :: "error + IndexingProgress list"
  he_total :: "error + int option"
  he_failedEvents :: "error + nat"
  he_now :: int
  he_startTime :: int

text \<open>Decimal text of a number, as a template string prints it.\<close>

function decimal_nat :: "nat \<Rightarrow> string" where
  "decimal_nat n =
     (if n < 10 then [''0123456789'' ! n]
      else decimal_nat (n div 10) @ [''0123456789'' ! (n mod 10)])"
  by pat_completeness auto
termination
  by (relation "measure id") auto

declare decimal_nat.simps [simp del]

definition decimal_int :: "int \<Rightarrow> string" where
  "decimal_int i = (if 0 \<le> i then decimal_nat (nat i) else CHR ''-'' # decimal_nat (nat (- i)))"

definition checkBlockchainHealth :: "health_env \<Rightarrow> error + blockchain_health" where
  "checkBlockchainHealth env =
     (case (case he_latestBlock env of
              Inl e \<Rightarrow> Inl e
            | Inr latestBlock \<Rightarrow>
               (case he_rpcUrl env of
                  Inl e \<Rightarrow> Inl e
                | Inr rpcUrl \<Rightarrow>
                    Inr \<lparr>bh_connected = True, bh_latestBlock = Some latestBlock,
                         bh_rpcUrl = (case rpcUrl of
                                        None \<Rightarrow> ''undefined...''
                                      | Some u \<Rightarrow> take 50 u @ ''...'')\<rparr>)) of
        Inr r \<Rightarrow> Inr r
      | Inl error \<Rightarrow>
         (case he_rpcUrl env of
            Inl e \<Rightarrow> Inl e
          | Inr rpcUrl \<Rightarrow>
              Inr \<lparr>bh_connected = False, bh_latestBlock = None,
                   bh_rpcUrl = (case rpcUrl of
                                  None \<Rightarrow> ''Unknown''
                                | Some u \<Rightarrow> if u = [] then ''Unknown'' else u)\<rparr>))"

text \<open>\<open>syncLag[progress.contractAddress] = lag\<close>: a later row of the same address overwrites.\<close>

fun object_set :: "string \<Rightarrow> int \<Rightarrow> (string \<times> int) list \<Rightarrow> (string \<times> int) list" where
  "object_set k v [] = [(k, v)]"
| "object_set k v ((k', v') # kvs) =
     (if k' = k then (k, v) # kvs else (k', v') # object_set k v kvs)"

text \<open>
  \<open>Math.round(avgUpdateAge / 1000)\<close> of the mean age, in exact arithmetic: the nearest
  integer, a half rounded up.
\<close>

definition calculateAverageProcessingTime :: "int \<Rightarrow> IndexingProgress list \<Rightarrow> int" where
  "calculateAverageProcessingTime now progressRecords =
     (if length progressRecords = 0 then 0
      else (let sumAge = fold (\<lambda>record acc. acc + (now - ip_updatedAt record)) progressRecords 0;
                n = int (length progressRecords)
            in (2 * sumAge + 1000 * n) div (2000 * n)))"

definition checkIndexingHealth :: "health_env \<Rightarrow> indexing_health" where
  "checkIndexingHealth env =
     (case (case he_contracts env of
              Inl e \<Rightarrow> Inl e
            | Inr configured \<Rightarrow>
               (let enabledContracts = filter cc_enabled configured
                in case he_allProgress env of
                     Inl e \<Rightarrow> Inl e
                   | Inr allProgress \<Rightarrow>
                      (let activelyIndexing = length (filter ip_isSyncing allProgress)
                       in case he_currentBlock env of
                            Inl e \<Rightarrow> Inl e
                          | Inr currentBlock \<Rightarrow>
                              Inr \<lparr>ih_totalContracts = length enabledContracts,
                                   ih_activelyIndexing = activelyIndexing,
                                   ih_syncLag =
                                     fold (\<lambda>progress syncLag.
                                             object_set (ip_contractAddress progress)
                                               (currentBlock - ip_lastProcessedBlock progress)
                                               syncLag)
                                       allProgress [],
                                   ih_avgProcessingTime =
                                     calculateAverageProcessingTime (he_now env) allProgress\<rparr>))) of
        Inr r \<Rightarrow> r
      | Inl (error :: error) \<Rightarrow>
          \<lparr>ih_totalContracts = 0, ih_activelyIndexing = 0, ih_syncLag = [],
           ih_avgProcessingTime = 0\<rparr>)"

definition checkDatabaseHealth :: "health_env \<Rightarrow> database_health" where
  "checkDatabaseHealth env =
     (case (case he_total env of
              Inl e \<Rightarrow> Inl e
            | Inr sumTotal \<Rightarrow>
               (case he_failedEvents env of
                  Inl e \<Rightarrow> Inl e
                | Inr failedEvents \<Rightarrow>
                    Inr \<lparr>dh_connected = True,
                         dh_totalEvents = (case sumTotal of None \<Rightarrow> 0 | Some n \<Rightarrow> n),
                         dh_failedEvents = failedEvents\<rparr>)) of
        Inr r \<Rightarrow> r
      | Inl (error :: error) \<Rightarrow>
          \<lparr>dh_connected = False, dh_totalEvents = 0, dh_failedEvents = 0\<rparr>)"

text \<open>\<open>Math.max(...values)\<close>; \<open>None\<close> is the \<open>-Infinity\<close> of no value at all.\<close>

fun Math_max :: "int list \<Rightarrow> int option" where
  "Math_max [] = None"
| "Math_max (x # xs) = (case Math_max xs of None \<Rightarrow> Some x | Some m \<Rightarrow> Some (max x m))"

definition worsen :: "health_status \<Rightarrow> health_status" where
  "worsen status = (if status = unhealthy then unhealthy else degraded)"

text \<open>
  One rule of the check, \<open>if (cond) { issues.push(issue); status = f(status) }\<close>, on the
  pair of the two variables.
\<close>

definition health_rule ::
  "bool \<Rightarrow> string \<Rightarrow> (health_status \<Rightarrow> health_status) \<Rightarrow> string list \<times> health_status
     \<Rightarrow> string list \<times> health_status" where
  "health_rule cond issue f acc =
     (case acc of (issues, status) \<Rightarrow>
        if cond then (issues @ [issue], f status) else (issues, status))"

definition getSystemHealth_try :: "health_env \<Rightarrow> error + SystemHealthStatus" where
  "getSystemHealth_try env =
     (case checkBlockchainHealth env of
        Inl e \<Rightarrow> Inl e
      | Inr blockchain \<Rightarrow>
         (let acc1 = health_rule (\<not> bh_connected blockchain) ''Blockchain RPC connection failed''
                       (\<lambda>status. unhealthy) ([], healthy);
              indexing = checkIndexingHealth env;
              acc2 = health_rule (ih_activelyIndexing indexing = 0 \<and> 0 < ih_totalContracts indexing)
                       ''No contracts are actively indexing'' worsen acc1;
              maxLag = Math_max (map snd (ih_syncLag indexing));
              acc3 = (case maxLag of
                        None \<Rightarrow> acc2
                      | Some lag \<Rightarrow>
                          health_rule (1000 < lag)
                            (''High sync lag detected: '' @ decimal_int lag @ '' blocks'')
                            worsen acc2);
              database = checkDatabaseHealth env;
              acc4 = health_rule (\<not> dh_connected database) ''Database connection failed''
                       (\<lambda>status. unhealthy) acc3;
              acc5 = health_rule (100 < dh_failedEvents database)
                       (''High number of failed events: '' @
                          decimal_nat (dh_failedEvents database))
                       worsen acc4
          in Inr \<lparr>hs_status = snd acc5,
                  hs_timestamp = he_now env,
                  hs_uptime = he_now env - he_startTime env,
                  hs_blockchain = blockchain,
                  hs_indexing = indexing,
                  hs_database = database,
                  hs_queue = \<lparr>qh_healthy = True, qh_estimatedJobs = 0\<rparr>,
                  hs_issues = fst acc5\<rparr>))"

definition getSystemHealth :: "health_env \<Rightarrow> error + SystemHealthStatus" where
  "getSystemHealth env =
     (case getSystemHealth_try env of
        Inr r \<Rightarrow> Inr r
      | Inl error \<Rightarrow>
          Inr \<lparr>hs_status = unhealthy,
               hs_timestamp = he_now env,
               hs_uptime = he_now env - he_startTime env,
               hs_blockchain = \<lparr>bh_connected = False, bh_latestBlock = None, bh_rpcUrl = []\<rparr>,
               hs_indexing = \<lparr>ih_totalContracts = 0, ih_activelyIndexing = 0, ih_syncLag = [],
                              ih_avgProcessingTime = 0\<rparr>,
               hs_database = \<lparr>dh_connected = False, dh_totalEvents = 0, dh_failedEvents = 0\<rparr>,
               hs_queue = \<lparr>qh_healthy = False, qh_estimatedJobs = 0\<rparr>,
               hs_issues = [''System health check failed'']\<rparr>)"

subsection \<open>Sequences of operations\<close>

text \<open>
  The operations that write to the progress repository, each with the inputs it takes
  from outside. A run that does not return has no state after it.
\<close>

datatype operation =
    StartIndexing config ledger string
  | ProcessBlockRange ledger IndexingJob
  | ProcessTokenEvent ProcessEventJob
  | StopIndexing string int
  | UpdateSyncingStatus string int bool
  | HandleStartIndexing config ledger string int "string list"
  | ResumeIndexing config ledger
  | OnApplicationShutdown shutdown_env

fun step :: "operation \<Rightarrow> system \<Rightarrow> system option" where
  "step (StartIndexing cfg ldg a) s = Some (snd (startIndexing cfg ldg a s))"
| "step (ProcessBlockRange ldg j) s = Some (snd (processBlockRange ldg j s))"
| "step (ProcessTokenEvent d) s = Some (snd (processTokenEvent d s))"
| "step (StopIndexing a c) s = Some (snd (stopIndexing a c s))"
| "step (UpdateSyncingStatus a c b) s = Some (updateSyncingStatus a c b s)"
| "step (HandleStartIndexing cfg ldg a c es) s =
     map_option snd (handleStartIndexing cfg ldg a c es s)"
| "step (ResumeIndexing cfg ldg) s = Some (snd (resumeIndexing cfg ldg s))"
| "step (OnApplicationShutdown env) s = Some (fst (onApplicationShutdown env s))"

fun run :: "operation list \<Rightarrow> system \<Rightarrow> system option" where
  "run [] s = Some s"
| "run (op # ops) s = (case step op s of None \<Rightarrow> None | Some s' \<Rightarrow> run ops s')"

text \<open>\<open>lastProcessedBlock\<close> of the row of an entity, if it has one.\<close>

definition cursor :: "string \<Rightarrow> int \<Rightarrow> system \<Rightarrow> int option" where
  "cursor a c s =
     map_option ip_lastProcessedBlock (findOne_progress a c (indexingProgressRepository s))"

subsection \<open>Observations and sample inputs\<close>

text \<open>\<open>totalEventsProcessed\<close> of the row of an entity, if it has one.\<close>

definition counter :: "string \<Rightarrow> int \<Rightarrow> system \<Rightarrow> int option" where
  "counter a c s =
     map_option ip_totalEventsProcessed
       (findOne_progress a c (indexingProgressRepository s))"

text \<open>The transfer rows that carry the natural key of an event.\<close>

definition materialized :: "TokenEvent \<Rightarrow> system \<Rightarrow> TokenTransfer list" where
  "materialized event s =
     filter (\<lambda>t. tt_transactionHash t = ev_transactionHash event \<and>
                  tt_logIndex t = ev_logIndex event)
       (tokenTransferRepository s)"

definition sample_queue :: queue where
  "sample_queue = \<lparr>waiting = [], delayed = [], connected = True, closed = False\<rparr>"

definition sample_row :: "int \<Rightarrow> bool \<Rightarrow> IndexingProgress" where
  "sample_row lastBlock flag =
     \<lparr>ip_contractAddress = ''0xab'', ip_chainId = 137, ip_lastProcessedBlock = lastBlock,
      ip_isSyncing = flag, ip_syncStartBlock = 100, ip_totalEventsProcessed = 0,
      ip_updatedAt = 0\<rparr>"

definition sample_system :: "IndexingProgress list \<Rightarrow> system" where
  "sample_system rows =
     \<lparr>tokenTransferRepository = [], indexingProgressRepository = rows,
      failedEventRepository = [], indexingQueue = sample_queue,
      blockProcessingQueue = sample_queue, eventProcessingQueue = sample_queue,
      clock = 0\<rparr>"

definition sample_event :: "string \<Rightarrow> TokenEvent" where
  "sample_event name =
     \<lparr>ev_transactionHash = ''0x01'', ev_logIndex = 0, ev_blockNumber = 150,
      ev_blockHash = ''0xb1'', ev_contractAddress = ''0xab'', ev_eventName = name,
      ev_args = [''0xAA'', ''0xbb'', ''5'']\<rparr>"

definition sample_job :: "string \<Rightarrow> ProcessEventJob" where
  "sample_job name =
     \<lparr>pe_event = sample_event name, pe_contractAddress = ''0xab'', pe_chainId = 137\<rparr>"

definition sample_ledger :: "int \<Rightarrow> TokenEvent list \<Rightarrow> ledger" where
  "sample_ledger height evs =
     \<lparr>getCurrentBlockNumber = Inr height, validateContractAddress = (\<lambda>a. True),
      getTokenEvents = (\<lambda>a names f t. Inr evs)\<rparr>"

definition sample_range :: "int \<Rightarrow> int \<Rightarrow> IndexingJob" where
  "sample_range f t =
     \<lparr>ij_contractAddress = ''0xab'', ij_chainId = 137, ij_fromBlock = f, ij_toBlock = t,
      ij_events = [''Transfer'', ''Approval'']\<rparr>"

definition sample_contract :: "string \<Rightarrow> int \<Rightarrow> ContractConfig" where
  "sample_contract a c =
     \<lparr>cc_address = a, cc_chainId = c, cc_startBlock = Number 100,
      cc_events = [''Transfer'', ''Approval''], cc_enabled = True\<rparr>"

definition sample_config :: "(string \<times> ContractConfig) list \<Rightarrow> config" where
  "sample_config cs = \<lparr>contracts = cs, batchSize = 100\<rparr>"




text \<open>The \<open>process-event\<close> job that \<open>processBlockRange\<close> submits for one event.\<close>

definition eventJob :: "string \<Rightarrow> int \<Rightarrow> TokenEvent \<Rightarrow> job" where
  "eventJob a c event =
     \<lparr>job_name = ''process-event'',
      job_data = EventData \<lparr>pe_event = event, pe_contractAddress = a, pe_chainId = c\<rparr>,
      job_opts = \<lparr>opt_priority = None, opt_delay = None, opt_attempts = Some 3,
                  opt_backoff = Some (''exponential'', 2000)\<rparr>\<rparr>"

text \<open>A \<open>Transfer\<close> event that lost its arguments: applying it throws.\<close>

definition sample_broken :: ProcessEventJob where
  "sample_broken = (sample_job ''Transfer'')\<lparr>pe_event := (sample_event ''Transfer'')\<lparr>ev_args := []\<rparr>\<rparr>"

text \<open>
  The sub-ranges of \<open>[from, to]\<close> as the specification writes them:
  \<open>sub_i = [from + i*batchSize, min(from + (i+1)*batchSize - 1, to)]\<close>, for the indices
  \<open>i\<close> whose lower bound is still in the range.
\<close>

definition subranges :: "int \<Rightarrow> int \<Rightarrow> int \<Rightarrow> (int \<times> int) list" where
  "subranges from to bsize =
     map (\<lambda>i. (from + int i * bsize, min (from + (int i + 1) * bsize - 1) to))
       [0..<nat ((to - from) div bsize + 1)]"

text \<open>The \<open>process-block-range\<close> job that the scheduler submits for one sub-range.\<close>

definition rangeJob :: "string \<Rightarrow> int \<Rightarrow> string list \<Rightarrow> int \<times> int \<Rightarrow> job" where
  "rangeJob a c es r =
     \<lparr>job_name = ''process-block-range'',
      job_data = BlockRangeData \<lparr>ij_contractAddress = a, ij_chainId = c,
                   ij_fromBlock = fst r, ij_toBlock = snd r, ij_events = es\<rparr>,
      job_opts = \<lparr>opt_priority = None, opt_delay = None, opt_attempts = Some 3,
                  opt_backoff = Some (''exponential'', 5000)\<rparr>\<rparr>"

text \<open>The sub-range of index \<open>i\<close>.\<close>

definition sub :: "int \<Rightarrow> int \<Rightarrow> int \<Rightarrow> nat \<Rightarrow> int \<times> int" where
  "sub lo hi bsize i = (lo + int i * bsize, min (lo + (int i + 1) * bsize - 1) hi)"

text \<open>
  A \<open>process-block-range\<close> job of the entity may run in a state only if its \<open>toBlock\<close> is
  not below the cursor of the entity there; every other operation may always run.
\<close>

fun keeps_cursor :: "string \<Rightarrow> int \<Rightarrow> system \<Rightarrow> operation \<Rightarrow> bool" where
  "keeps_cursor a c s (ProcessBlockRange ldg j) =
     (if ij_contractAddress j = a \<and> ij_chainId j = c
      then (case cursor a c s of None \<Rightarrow> True | Some b \<Rightarrow> b \<le> ij_toBlock j)
      else True)"
| "keeps_cursor a c s other = True"

fun in_order :: "string \<Rightarrow> int \<Rightarrow> operation list \<Rightarrow> system \<Rightarrow> bool" where
  "in_order a c [] s = True"
| "in_order a c (op # ops) s =
     (keeps_cursor a c s op \<and>
      (case step op s of None \<Rightarrow> True | Some s' \<Rightarrow> in_order a c ops s'))"

text \<open>Every cursor that the first table holds is held unchanged by the second.\<close>

definition cursor_kept :: "IndexingProgress list \<Rightarrow> IndexingProgress list \<Rightarrow> bool" where
  "cursor_kept rows rows' \<longleftrightarrow>
     (\<forall>a c b. map_option ip_lastProcessedBlock (findOne_progress a c rows) = Some b \<longrightarrow>
              map_option ip_lastProcessedBlock (findOne_progress a c rows') = Some b)"

text \<open>A sub-range, one of its events, the next sub-range, and a stop.\<close>

definition sample_ops :: "operation list" where
  "sample_ops =
     [ProcessBlockRange (sample_ledger 400 [sample_event ''Transfer'']) (sample_range 100 199),
      ProcessTokenEvent (sample_job ''Transfer''),
      ProcessBlockRange (sample_ledger 400 []) (sample_range 200 299),
      StopIndexing ''0xab'' 137]"

text \<open>A health check input where only the outcomes named vary.\<close>

definition sample_health ::
  "error + int \<Rightarrow> error + string option \<Rightarrow> error + int option \<Rightarrow> health_env" where
  "sample_health latest url tot =
     \<lparr>he_latestBlock = latest, he_currentBlock = Inr 400, he_rpcUrl = url,
      he_contracts = Inr [sample_contract ''0xab'' 137],
      he_allProgress = Inr [sample_row 399 True], he_total = tot,
      he_failedEvents = Inr 0, he_now = 5000, he_startTime = 0\<rparr>"







text \<open>Whether a configured contract has a progress row in a state.\<close>

definition has_row :: "system \<Rightarrow> ContractConfig \<Rightarrow> bool" where
  "has_row s contract \<longleftrightarrow>
     findOne_progress (toLowerCase (cc_address contract)) (cc_chainId contract)
       (indexingProgressRepository s) \<noteq> None"

text \<open>
  The second table is the first one, row by row, except that rows of the contracts
  listed may have been marked as syncing.
\<close>

definition resumed_from ::
  "ContractConfig list \<Rightarrow> IndexingProgress list \<Rightarrow> IndexingProgress list \<Rightarrow> bool" where
  "resumed_from xs rows rows' \<longleftrightarrow>
     list_all2 (\<lambda>r r'. r' = r \<or>
                  (r' = r\<lparr>ip_isSyncing := True\<rparr> \<and>
                   list_ex (\<lambda>x. is_entity (toLowerCase (cc_address x)) (cc_chainId x) r) xs))
       rows rows'"

section \<open>Properties\<close>

subsection \<open>Repositories\<close>

lemma find_update_where:
  assumes "\<And>r. P (f r) = P r"
  shows "find P (update_where crit f rows) = map_option (\<lambda>r. if crit r then f r else r) (find P rows)"
  using assms by (induction rows) (auto simp: update_where_def)

lemma counter_update_where:
  "counter a c (s\<lparr>indexingProgressRepository :=
      update_where (is_entity a c)
        (\<lambda>r. r\<lparr>ip_totalEventsProcessed := ip_totalEventsProcessed r + 1\<rparr>)
        (indexingProgressRepository s)\<rparr>) = map_option (\<lambda>n. n + 1) (counter a c s)"
proof -
  have "find (\<lambda>r. ip_contractAddress r = a \<and> ip_chainId r = c)
          (update_where (is_entity a c)
             (\<lambda>r. r\<lparr>ip_totalEventsProcessed := ip_totalEventsProcessed r + 1\<rparr>)
             (indexingProgressRepository s))
        = map_option (\<lambda>r. if is_entity a c r
                           then r\<lparr>ip_totalEventsProcessed := ip_totalEventsProcessed r + 1\<rparr>
                           else r)
            (find (\<lambda>r. ip_contractAddress r = a \<and> ip_chainId r = c)
               (indexingProgressRepository s))"
    by (rule find_update_where) simp
  moreover have "\<And>r. find (\<lambda>r. ip_contractAddress r = a \<and> ip_chainId r = c)
                        (indexingProgressRepository s) = Some r \<Longrightarrow> is_entity a c r"
    by (auto simp: find_Some_iff is_entity_def)
  ultimately show ?thesis
    by (cases "find (\<lambda>r. ip_contractAddress r = a \<and> ip_chainId r = c)
                 (indexingProgressRepository s)")
       (simp_all add: counter_def findOne_progress_def)
qed

subsection \<open>Event applier\<close>

text \<open>
  C10. An event named \<open>Approval\<close> whose key (transactionHash, logIndex) is not in the
  transfer table: \<open>processTokenEvent\<close> succeeds, leaves the transfer table (and the
  failed-event table) as it was, and adds one to \<open>totalEventsProcessed\<close> of the entity's
  row. The counter can therefore be larger than the number of transfer rows.
\<close>

theorem processTokenEvent_approval:
  assumes "ev_eventName (pe_event d) = ''Approval''"
    and "findOne_transfer (ev_transactionHash (pe_event d)) (ev_logIndex (pe_event d))
           (tokenTransferRepository s) = None"
  shows "fst (processTokenEvent d s) = Inr () \<and>
         tokenTransferRepository (snd (processTokenEvent d s)) = tokenTransferRepository s \<and>
         failedEventRepository (snd (processTokenEvent d s)) = failedEventRepository s \<and>
         counter (pe_contractAddress d) (pe_chainId d) (snd (processTokenEvent d s)) =
           map_option (\<lambda>n. n + 1) (counter (pe_contractAddress d) (pe_chainId d) s)"
  using assms
  by (simp add: processTokenEvent_def processTokenEvent_try_def Let_def counter_update_where)

theorem processTokenEvent_approval_witness:
  "fst (processTokenEvent (sample_job ''Approval'') (sample_system [sample_row 99 True])) = Inr () \<and>
   counter ''0xab'' 137
     (snd (processTokenEvent (sample_job ''Approval'') (sample_system [sample_row 99 True])))
     = Some 1 \<and>
   length (tokenTransferRepository
     (snd (processTokenEvent (sample_job ''Approval'') (sample_system [sample_row 99 True]))))
     = 0"
  using processTokenEvent_approval
          [of "sample_job ''Approval''" "sample_system [sample_row 99 True]"]
  by (simp add: sample_job_def sample_event_def sample_system_def sample_row_def
        findOne_transfer_def findOne_progress_def counter_def)

lemma find_None_filter: "find P xs = None \<longleftrightarrow> filter P xs = []"
  by (induction xs) auto

lemma processTokenEvent_known:
  assumes "materialized (pe_event d) s \<noteq> []"
  shows "processTokenEvent d s = (Inr (), s)"
proof -
  have "findOne_transfer (ev_transactionHash (pe_event d)) (ev_logIndex (pe_event d))
          (tokenTransferRepository s) \<noteq> None"
    using assms by (simp add: findOne_transfer_def materialized_def find_None_filter)
  then show ?thesis
    by (auto simp: processTokenEvent_def processTokenEvent_try_def Let_def)
qed

lemma processTransferEvent_ok:
  assumes "3 \<le> length (ev_args event)"
  shows "\<exists>t. processTransferEvent event a c s =
           (Inr (), s\<lparr>tokenTransferRepository := tokenTransferRepository s @ [t]\<rparr>) \<and>
         tt_transactionHash t = ev_transactionHash event \<and> tt_logIndex t = ev_logIndex event"
  using assms by (auto simp: processTransferEvent_def split: list.splits)

text \<open>
  C2 (amended). Replaying a \<open>Transfer\<close> event that carries its three arguments and whose
  key is not yet in the transfer table: the first application succeeds, the second is a
  no-op that succeeds, after it exactly one transfer row has the key, and
  \<open>totalEventsProcessed\<close> of the entity's row has grown by one.
\<close>

theorem processTokenEvent_replay_transfer:
  assumes "ev_eventName (pe_event d) = ''Transfer''"
    and "3 \<le> length (ev_args (pe_event d))"
    and "materialized (pe_event d) s = []"
  shows "fst (processTokenEvent d s) = Inr () \<and>
         processTokenEvent d (snd (processTokenEvent d s)) = (Inr (), snd (processTokenEvent d s)) \<and>
         length (materialized (pe_event d) (snd (processTokenEvent d s))) = 1 \<and>
         counter (pe_contractAddress d) (pe_chainId d) (snd (processTokenEvent d s)) =
           map_option (\<lambda>n. n + 1) (counter (pe_contractAddress d) (pe_chainId d) s)"
proof -
  let ?a = "pe_contractAddress d" and ?c = "pe_chainId d"
  obtain t where t: "processTransferEvent (pe_event d) ?a ?c s =
      (Inr (), s\<lparr>tokenTransferRepository := tokenTransferRepository s @ [t]\<rparr>)"
    "tt_transactionHash t = ev_transactionHash (pe_event d)"
    "tt_logIndex t = ev_logIndex (pe_event d)"
    using processTransferEvent_ok [OF assms(2)] by blast
  have none: "findOne_transfer (ev_transactionHash (pe_event d)) (ev_logIndex (pe_event d))
          (tokenTransferRepository s) = None"
    using assms(3) by (simp add: findOne_transfer_def materialized_def find_None_filter)
  let ?s1 = "s\<lparr>tokenTransferRepository := tokenTransferRepository s @ [t]\<rparr>"
  let ?s2 = "?s1\<lparr>indexingProgressRepository :=
                    update_where (is_entity ?a ?c)
                      (\<lambda>r. r\<lparr>ip_totalEventsProcessed := ip_totalEventsProcessed r + 1\<rparr>)
                      (indexingProgressRepository ?s1)\<rparr>"
  have first: "processTokenEvent d s = (Inr (), ?s2)"
    using assms(1) none t(1)
    by (simp add: processTokenEvent_def processTokenEvent_try_def Let_def)
  have mat: "materialized (pe_event d) ?s2 = [t]"
    using assms(3) t(2,3) by (simp add: materialized_def)
  have cnt: "counter ?a ?c ?s2 = map_option (\<lambda>n. n + 1) (counter ?a ?c s)"
    using counter_update_where [of ?a ?c ?s1] by (simp add: counter_def)
  have second: "processTokenEvent d ?s2 = (Inr (), ?s2)"
    by (rule processTokenEvent_known) (use mat in simp)
  show ?thesis
    using first mat cnt second by simp
qed

theorem processTokenEvent_replay_transfer_witness:
  "processTokenEvent (sample_job ''Transfer'')
     (snd (processTokenEvent (sample_job ''Transfer'') (sample_system [sample_row 99 True])))
     = (Inr (), snd (processTokenEvent (sample_job ''Transfer'') (sample_system [sample_row 99 True]))) \<and>
   length (materialized (sample_event ''Transfer'')
     (snd (processTokenEvent (sample_job ''Transfer'') (sample_system [sample_row 99 True])))) = 1 \<and>
   counter ''0xab'' 137
     (snd (processTokenEvent (sample_job ''Transfer'') (sample_system [sample_row 99 True])))
     = Some 1"
  using processTokenEvent_replay_transfer
          [of "sample_job ''Transfer''" "sample_system [sample_row 99 True]"]
  by (simp add: sample_job_def sample_event_def sample_system_def sample_row_def
        materialized_def findOne_progress_def counter_def)

text \<open>
  For an \<open>Approval\<close> event nothing is stored under the key, so the replay is not
  recognised: two applications count twice and leave no transfer row.
\<close>

theorem processTokenEvent_replay_approval_counterexample:
  "counter ''0xab'' 137
     (snd (processTokenEvent (sample_job ''Approval'')
        (snd (processTokenEvent (sample_job ''Approval'') (sample_system [sample_row 99 True])))))
     = Some 2 \<and>
   materialized (sample_event ''Approval'')
     (snd (processTokenEvent (sample_job ''Approval'')
        (snd (processTokenEvent (sample_job ''Approval'') (sample_system [sample_row 99 True])))))
     = []"
  by (simp add: processTokenEvent_def processTokenEvent_try_def Let_def sample_job_def
        sample_event_def sample_system_def sample_row_def materialized_def findOne_transfer_def
        findOne_progress_def counter_def update_where_def is_entity_def)

lemma removeContractJobs_success: "fst (removeContractJobs a c s) = Inr ()"
  by (simp add: removeContractJobs_def split: prod.splits sum.splits)

lemma removeContractJobs_progress:
  "indexingProgressRepository (snd (removeContractJobs a c s)) = indexingProgressRepository s"
  by (auto simp: removeContractJobs_def removeContractJobs_try_def Let_def
      split: prod.splits sum.splits)


lemma syncing_after_clear:
  "\<not> syncing (findOne_progress a c
       (update_where (is_entity a c) (\<lambda>r. r\<lparr>ip_isSyncing := False\<rparr>) rows))"
proof -
  have "find (\<lambda>r. ip_contractAddress r = a \<and> ip_chainId r = c)
          (update_where (is_entity a c) (\<lambda>r. r\<lparr>ip_isSyncing := False\<rparr>) rows)
        = map_option (\<lambda>r. if is_entity a c r then r\<lparr>ip_isSyncing := False\<rparr> else r)
            (find (\<lambda>r. ip_contractAddress r = a \<and> ip_chainId r = c) rows)"
    by (rule find_update_where) simp
  moreover have "\<And>r. find (\<lambda>r. ip_contractAddress r = a \<and> ip_chainId r = c) rows = Some r
                   \<Longrightarrow> is_entity a c r"
    by (auto simp: find_Some_iff is_entity_def)
  ultimately show ?thesis
    by (cases "find (\<lambda>r. ip_contractAddress r = a \<and> ip_chainId r = c) rows")
       (simp_all add: syncing_def findOne_progress_def)
qed

subsection \<open>Stop\<close>



subsection \<open>Sub-range processing\<close>

lemma queue_addBulk_waiting:
  assumes "connected q" and "\<forall>x \<in> set js. opt_delay (snd (snd x)) = None"
  shows "queue_addBulk q js =
         Inr (q\<lparr>waiting := waiting q @
                  map (\<lambda>(n, d, opts). \<lparr>job_name = n, job_data = d, job_opts = opts\<rparr>) js\<rparr>)"
  using assms
proof (induction js arbitrary: q)
  case Nil
  then show ?case by simp
next
  case (Cons x js)
  obtain n d opts where x: "x = (n, d, opts)" by (cases x)
  have "queue_add q n d opts =
        Inr (q\<lparr>waiting := waiting q @ [\<lparr>job_name = n, job_data = d, job_opts = opts\<rparr>]\<rparr>)"
    using Cons.prems x by (simp add: queue_add_def)
  moreover have "queue_addBulk (q\<lparr>waiting := waiting q @ [\<lparr>job_name = n, job_data = d, job_opts = opts\<rparr>]\<rparr>) js
     = Inr (q\<lparr>waiting := waiting q @ [\<lparr>job_name = n, job_data = d, job_opts = opts\<rparr>]\<rparr>
            \<lparr>waiting := waiting (q\<lparr>waiting := waiting q @ [\<lparr>job_name = n, job_data = d, job_opts = opts\<rparr>]\<rparr>) @
                  map (\<lambda>(n, d, opts). \<lparr>job_name = n, job_data = d, job_opts = opts\<rparr>) js\<rparr>)"
    using Cons.prems by (intro Cons.IH) simp_all
  ultimately show ?case
    using x by simp
qed

lemma cursor_update_where:
  "cursor a c (s\<lparr>indexingProgressRepository :=
      update_where (is_entity a c) (\<lambda>r. r\<lparr>ip_lastProcessedBlock := b\<rparr>)
        (indexingProgressRepository s)\<rparr>) = map_option (\<lambda>x. b) (cursor a c s)"
proof -
  have "find (\<lambda>r. ip_contractAddress r = a \<and> ip_chainId r = c)
          (update_where (is_entity a c) (\<lambda>r. r\<lparr>ip_lastProcessedBlock := b\<rparr>)
             (indexingProgressRepository s))
        = map_option (\<lambda>r. if is_entity a c r then r\<lparr>ip_lastProcessedBlock := b\<rparr> else r)
            (find (\<lambda>r. ip_contractAddress r = a \<and> ip_chainId r = c)
               (indexingProgressRepository s))"
    by (rule find_update_where) simp
  moreover have "\<And>r. find (\<lambda>r. ip_contractAddress r = a \<and> ip_chainId r = c)
                        (indexingProgressRepository s) = Some r \<Longrightarrow> is_entity a c r"
    by (auto simp: find_Some_iff is_entity_def)
  ultimately show ?thesis
    by (cases "find (\<lambda>r. ip_contractAddress r = a \<and> ip_chainId r = c)
                 (indexingProgressRepository s)")
       (simp_all add: cursor_def findOne_progress_def)
qed

lemma processBlockRange_success:
  assumes "getTokenEvents ldg (ij_contractAddress j) (ij_events j) (ij_fromBlock j) (ij_toBlock j)
             = Inr evs"
    and "connected (eventProcessingQueue s)"
  shows "processBlockRange ldg j s =
     (Inr (), s\<lparr>eventProcessingQueue :=
                  (eventProcessingQueue s)\<lparr>waiting := waiting (eventProcessingQueue s) @
                     map (eventJob (ij_contractAddress j) (ij_chainId j)) evs\<rparr>,
                indexingProgressRepository :=
                  update_where (is_entity (ij_contractAddress j) (ij_chainId j))
                    (\<lambda>r. r\<lparr>ip_lastProcessedBlock := ij_toBlock j\<rparr>)
                    (indexingProgressRepository s)\<rparr>)"
proof (cases evs)
  case Nil
  then show ?thesis
    using assms by (simp add: processBlockRange_def Let_def)
next
  case (Cons e es)
  let ?js = "map (\<lambda>j. (''process-event'', EventData j,
                         \<lparr>opt_priority = None, opt_delay = None, opt_attempts = Some 3,
                          opt_backoff = Some (''exponential'', 2000)\<rparr>))
               (map (\<lambda>event. \<lparr>pe_event = event, pe_contractAddress = ij_contractAddress j,
                               pe_chainId = ij_chainId j\<rparr>) evs)"
  have "queue_addBulk (eventProcessingQueue s) ?js =
        Inr ((eventProcessingQueue s)\<lparr>waiting := waiting (eventProcessingQueue s) @
               map (\<lambda>(n, d, opts). \<lparr>job_name = n, job_data = d, job_opts = opts\<rparr>) ?js\<rparr>)"
    using assms(2) by (intro queue_addBulk_waiting) auto
  moreover have "map (\<lambda>(n, d, opts). \<lparr>job_name = n, job_data = d, job_opts = opts\<rparr>) ?js
                 = map (eventJob (ij_contractAddress j) (ij_chainId j)) evs"
    by (simp add: eventJob_def comp_def)
  ultimately show ?thesis
    using assms(1) Cons by (simp add: processBlockRange_def Let_def)
qed

lemma cursor_frame:
  "indexingProgressRepository s' = indexingProgressRepository s \<Longrightarrow> cursor a c s' = cursor a c s"
  by (simp add: cursor_def)

text \<open>
  C4 (amended). When the ledger query and the bulk submission succeed,
  \<open>processBlockRange\<close> sets \<open>lastProcessedBlock\<close> of the entity's row to \<open>toBlock\<close>
  after it has submitted one \<open>process-event\<close> job per event of the sub-range; it does
  not touch the transfer table or the failed-event table, the events are applied later by
  \<open>processTokenEvent\<close>. An event whose application fails there adds one failed-event row
  holding the event and leaves every cursor where it was.
\<close>

theorem processBlockRange_advance:
  "(getTokenEvents ldg (ij_contractAddress j) (ij_events j) (ij_fromBlock j) (ij_toBlock j)
      = Inr evs \<and> connected (eventProcessingQueue s) \<longrightarrow>
      fst (processBlockRange ldg j s) = Inr () \<and>
      cursor (ij_contractAddress j) (ij_chainId j) (snd (processBlockRange ldg j s)) =
        map_option (\<lambda>b. ij_toBlock j) (cursor (ij_contractAddress j) (ij_chainId j) s) \<and>
      waiting (eventProcessingQueue (snd (processBlockRange ldg j s))) =
        waiting (eventProcessingQueue s) @
        map (eventJob (ij_contractAddress j) (ij_chainId j)) evs \<and>
      tokenTransferRepository (snd (processBlockRange ldg j s)) = tokenTransferRepository s \<and>
      failedEventRepository (snd (processBlockRange ldg j s)) = failedEventRepository s) \<and>
   (fst (processTokenEvent d t) \<noteq> Inr () \<longrightarrow>
      cursor a c (snd (processTokenEvent d t)) = cursor a c t \<and>
      (\<exists>f. failedEventRepository (snd (processTokenEvent d t)) = failedEventRepository t @ [f] \<and>
           fe_eventData f = pe_event d))"
proof -
  have A: "fst (processBlockRange ldg j s) = Inr () \<and>
      cursor (ij_contractAddress j) (ij_chainId j) (snd (processBlockRange ldg j s)) =
        map_option (\<lambda>b. ij_toBlock j) (cursor (ij_contractAddress j) (ij_chainId j) s) \<and>
      waiting (eventProcessingQueue (snd (processBlockRange ldg j s))) =
        waiting (eventProcessingQueue s) @
        map (eventJob (ij_contractAddress j) (ij_chainId j)) evs \<and>
      tokenTransferRepository (snd (processBlockRange ldg j s)) = tokenTransferRepository s \<and>
      failedEventRepository (snd (processBlockRange ldg j s)) = failedEventRepository s"
    if "getTokenEvents ldg (ij_contractAddress j) (ij_events j) (ij_fromBlock j) (ij_toBlock j)
      = Inr evs" "connected (eventProcessingQueue s)"
    using cursor_update_where [of "ij_contractAddress j" "ij_chainId j" "ij_toBlock j" s]
    by (simp add: processBlockRange_success [OF that] cursor_def)
  have B: "cursor a c (snd (processTokenEvent d t)) = cursor a c t \<and>
      (\<exists>f. failedEventRepository (snd (processTokenEvent d t)) = failedEventRepository t @ [f] \<and>
           fe_eventData f = pe_event d)"
    if "fst (processTokenEvent d t) \<noteq> Inr ()"
    using that
    by (auto simp: processTokenEvent_def processTokenEvent_try_def Let_def
        processTransferEvent_def storeFailedEvent_def cursor_def
        split: option.splits if_splits list.splits prod.splits sum.splits)
  show ?thesis using A B by blast
qed

theorem processBlockRange_advance_witness:
  "cursor ''0xab'' 137
     (snd (processBlockRange (sample_ledger 400 [sample_event ''Transfer'']) (sample_range 100 199)
        (sample_system [sample_row 99 True]))) = Some 199 \<and>
   waiting (eventProcessingQueue
     (snd (processBlockRange (sample_ledger 400 [sample_event ''Transfer'']) (sample_range 100 199)
        (sample_system [sample_row 99 True])))) = [eventJob ''0xab'' 137 (sample_event ''Transfer'')] \<and>
   cursor ''0xab'' 137 (snd (processTokenEvent sample_broken (sample_system [sample_row 199 True])))
     = Some 199 \<and>
   length (failedEventRepository
     (snd (processTokenEvent sample_broken (sample_system [sample_row 199 True])))) = 1"
  using processBlockRange_advance
     [of "sample_ledger 400 [sample_event ''Transfer'']" "sample_range 100 199"
         "[sample_event ''Transfer'']" "sample_system [sample_row 99 True]"
         sample_broken "sample_system [sample_row 199 True]" "''0xab''" 137]
  by (auto simp: sample_ledger_def sample_range_def sample_system_def sample_row_def
        sample_queue_def cursor_def findOne_progress_def sample_broken_def sample_job_def
        sample_event_def processTokenEvent_def processTokenEvent_try_def
        processTransferEvent_def findOne_transfer_def)

text \<open>
  The cursor has reached the upper bound of the sub-range while its only event is
  neither in the transfer table nor in the failed-event table.
\<close>

theorem processBlockRange_before_events_counterexample:
  "cursor ''0xab'' 137
     (snd (processBlockRange (sample_ledger 400 [sample_event ''Transfer'']) (sample_range 100 199)
        (sample_system [sample_row 99 True]))) = Some 199 \<and>
   tokenTransferRepository
     (snd (processBlockRange (sample_ledger 400 [sample_event ''Transfer'']) (sample_range 100 199)
        (sample_system [sample_row 99 True]))) = [] \<and>
   failedEventRepository
     (snd (processBlockRange (sample_ledger 400 [sample_event ''Transfer'']) (sample_range 100 199)
        (sample_system [sample_row 99 True]))) = []"
  by (simp add: processBlockRange_def Let_def sample_ledger_def sample_range_def
        sample_system_def sample_row_def sample_queue_def cursor_def findOne_progress_def
        queue_add_def update_where_def is_entity_def)

subsection \<open>Batch scheduler\<close>

lemma le_div_iff_int:
  fixes a b k :: int
  assumes "0 < b"
  shows "k \<le> a div b \<longleftrightarrow> k * b \<le> a"
proof
  assume "k \<le> a div b"
  then have "k * b \<le> (a div b) * b" using assms by (simp add: mult_right_mono)
  also have "\<dots> \<le> a" using assms
    by (metis mult.commute pos_mod_sign cancel_div_mod_rules(2) add.commute add_increasing2 order_refl minus_mult_div_eq_mod diff_ge_0_iff_ge)
  finally show "k * b \<le> a" .
next
  assume "k * b \<le> a"
  then have "(k * b) div b \<le> a div b" using assms by (intro zdiv_mono1) simp_all
  then show "k \<le> a div b" using assms by simp
qed

lemma index_in_range:
  fixes lo hi bsize :: int
  assumes "1 \<le> bsize" "lo \<le> hi"
  shows "k < nat ((hi - lo) div bsize + 1) \<longleftrightarrow> lo + int k * bsize \<le> hi"
proof -
  have "0 \<le> (hi - lo) div bsize"
    using assms by (simp add: pos_imp_zdiv_nonneg_iff)
  then have "k < nat ((hi - lo) div bsize + 1) \<longleftrightarrow> int k \<le> (hi - lo) div bsize"
    by linarith
  also have "\<dots> \<longleftrightarrow> int k * bsize \<le> hi - lo"
    using assms by (intro le_div_iff_int) simp
  finally show ?thesis by linarith
qed

lemma subranges_sub: "subranges lo hi bsize = map (sub lo hi bsize) [0..<nat ((hi - lo) div bsize + 1)]"
  by (simp add: subranges_def sub_def)

lemma batchLoop_exit:
  "hi < lo \<Longrightarrow> batchLoop bsize a c es hi lo s = Some (Inr True, s)"
  by (subst batchLoop.simps) simp

lemma batchLoop_from_index:
  assumes "1 \<le> bsize" "lo \<le> hi"
    and "syncing (getIndexingStatus a c s)" "connected (blockProcessingQueue s)"
    and "k < nat ((hi - lo) div bsize + 1)"
  shows "batchLoop bsize a c es hi (lo + int k * bsize) s =
         Some (Inr True,
               s\<lparr>blockProcessingQueue :=
                   (blockProcessingQueue s)\<lparr>waiting := waiting (blockProcessingQueue s) @
                      map (rangeJob a c es)
                        (map (sub lo hi bsize) [k..<nat ((hi - lo) div bsize + 1)])\<rparr>\<rparr>)"
  using assms(3,4,5)
proof (induction "nat ((hi - lo) div bsize + 1) - k" arbitrary: k s)
  case 0
  then show ?case by simp
next
  case (Suc m)
  let ?n = "nat ((hi - lo) div bsize + 1)"
  let ?q = "blockProcessingQueue s"
  let ?t = "min (lo + int k * bsize + bsize - 1) hi"
  let ?j = "rangeJob a c es (sub lo hi bsize k)"
  let ?s1 = "s\<lparr>blockProcessingQueue := ?q\<lparr>waiting := waiting ?q @ [?j]\<rparr>\<rparr>"
  have inrange: "lo + int k * bsize \<le> hi"
    using Suc.prems(3) index_in_range [OF assms(1,2)] by simp
  have t_eq: "?t = snd (sub lo hi bsize k)"
    by (simp add: sub_def algebra_simps)
  have add: "queue_add ?q ''process-block-range''
                (BlockRangeData \<lparr>ij_contractAddress = a, ij_chainId = c,
                   ij_fromBlock = lo + int k * bsize, ij_toBlock = ?t, ij_events = es\<rparr>)
                \<lparr>opt_priority = None, opt_delay = None, opt_attempts = Some 3,
                 opt_backoff = Some (''exponential'', 5000)\<rparr>
             = Inr (?q\<lparr>waiting := waiting ?q @ [?j]\<rparr>)"
    using Suc.prems(2) t_eq by (simp add: queue_add_def rangeJob_def sub_def)
  have unfold: "batchLoop bsize a c es hi (lo + int k * bsize) s =
                batchLoop bsize a c es hi (?t + 1) ?s1"
    using inrange Suc.prems(1) add
    by (subst batchLoop.simps) (simp add: Let_def)
  have s1_sync: "syncing (getIndexingStatus a c ?s1)"
    using Suc.prems(1) by (simp add: getIndexingStatus_def)
  have s1_conn: "connected (blockProcessingQueue ?s1)"
    using Suc.prems(2) by simp
  have upt: "[k..<?n] = k # [Suc k..<?n]"
    using Suc.prems(3) by (simp add: upt_conv_Cons)
  show ?case
  proof (cases "Suc k < ?n")
    case True
    then have next_in: "lo + int (Suc k) * bsize \<le> hi"
      using index_in_range [OF assms(1,2)] by simp
    then have "?t + 1 = lo + int (Suc k) * bsize"
      by (simp add: algebra_simps)
    moreover have "m = ?n - Suc k" using Suc.hyps(2) by simp
    ultimately have "batchLoop bsize a c es hi (?t + 1) ?s1 =
       Some (Inr True,
             ?s1\<lparr>blockProcessingQueue :=
                   (blockProcessingQueue ?s1)\<lparr>waiting := waiting (blockProcessingQueue ?s1) @
                      map (rangeJob a c es) (map (sub lo hi bsize) [Suc k..<?n])\<rparr>\<rparr>)"
      using Suc.hyps(1) [of "Suc k" ?s1] s1_sync s1_conn True by simp
    then show ?thesis
      using unfold upt by simp
  next
    case False
    then have last: "Suc k = ?n" using Suc.prems(3) by simp
    have "\<not> lo + int (Suc k) * bsize \<le> hi"
      using False index_in_range [OF assms(1,2)] by simp
    then have "hi < ?t + 1"
      by (simp add: algebra_simps)
    then have "batchLoop bsize a c es hi (?t + 1) ?s1 = Some (Inr True, ?s1)"
      by (rule batchLoop_exit)
    then show ?thesis
      using unfold upt last by simp
  qed
qed

lemma sub_bounds:
  assumes "1 \<le> bsize" "lo \<le> hi" "i < nat ((hi - lo) div bsize + 1)"
  shows "fst (sub lo hi bsize i) \<le> snd (sub lo hi bsize i) \<and>
         snd (sub lo hi bsize i) - fst (sub lo hi bsize i) + 1 \<le> bsize"
proof -
  have "lo + int i * bsize \<le> hi"
    using assms index_in_range by simp
  then show ?thesis
    using assms(1) by (simp add: sub_def algebra_simps)
qed

lemma sub_ascending:
  assumes "1 \<le> bsize" "i < j"
  shows "snd (sub lo hi bsize i) < fst (sub lo hi bsize j)"
proof -
  have "int i + 1 \<le> int j" using assms(2) by simp
  then have "(int i + 1) * bsize \<le> int j * bsize"
    using assms(1) by (intro mult_right_mono) simp_all
  then show ?thesis
    by (simp add: sub_def min_def)
qed

lemma sub_cover:
  assumes "1 \<le> bsize" "lo \<le> hi" "k < nat ((hi - lo) div bsize + 1)"
  shows "concat (map (\<lambda>r. [fst r..snd r]) (map (sub lo hi bsize) [k..<nat ((hi - lo) div bsize + 1)]))
         = [lo + int k * bsize..hi]"
  using assms(3)
proof (induction "nat ((hi - lo) div bsize + 1) - k" arbitrary: k)
  case 0
  then show ?case by simp
next
  case (Suc m)
  let ?n = "nat ((hi - lo) div bsize + 1)"
  have inrange: "lo + int k * bsize \<le> hi"
    using Suc.prems index_in_range [OF assms(1,2)] by simp
  have upt: "[k..<?n] = k # [Suc k..<?n]"
    using Suc.prems by (simp add: upt_conv_Cons)
  show ?case
  proof (cases "Suc k < ?n")
    case True
    then have next_in: "lo + int (Suc k) * bsize \<le> hi"
      using index_in_range [OF assms(1,2)] by simp
    then have snd_eq: "snd (sub lo hi bsize k) = lo + int (Suc k) * bsize - 1"
      by (simp add: sub_def algebra_simps)
    have "m = ?n - Suc k" using Suc.hyps(2) by simp
    then have IH: "concat (map (\<lambda>r. [fst r..snd r]) (map (sub lo hi bsize) [Suc k..<?n]))
                   = [lo + int (Suc k) * bsize..hi]"
      using Suc.hyps(1) [of "Suc k"] True by simp
    have "[lo + int k * bsize..hi] =
          [lo + int k * bsize..lo + int (Suc k) * bsize - 1] @ [lo + int (Suc k) * bsize..hi]"
      using next_in assms(1) upto_split1 [of "lo + int k * bsize" "lo + int (Suc k) * bsize" hi]
      by (simp add: algebra_simps)
    then show ?thesis
      using upt IH snd_eq by (simp add: sub_def)
  next
    case False
    then have last: "Suc k = ?n" using Suc.prems by simp
    have "\<not> lo + int (Suc k) * bsize \<le> hi"
      using False index_in_range [OF assms(1,2)] by simp
    then have "snd (sub lo hi bsize k) = hi"
      by (simp add: sub_def algebra_simps)
    then show ?thesis
      using upt last by (simp add: sub_def)
  qed
qed

text \<open>
  C3. For a range \<open>[lo, hi]\<close> with \<open>lo \<le> hi\<close> and a batch size of at least 1, the loop of
  the scheduler (run while the entity is syncing and the block-processing queue takes
  jobs) ends and has submitted exactly the sub-ranges
  \<open>[lo + i*bsize, min(lo + (i+1)*bsize - 1, hi)]\<close>, in this order. Each has at most
  \<open>bsize\<close> blocks and is not empty, each ends before the next begins, and laid end to end
  they are the blocks \<open>lo, ..., hi\<close>, each once.
\<close>

theorem batchLoop_subranges:
  assumes "lo \<le> hi" and "1 \<le> bsize"
    and "syncing (getIndexingStatus a c s)" and "connected (blockProcessingQueue s)"
  shows "batchLoop bsize a c es hi lo s =
           Some (Inr True,
                 s\<lparr>blockProcessingQueue :=
                     (blockProcessingQueue s)\<lparr>waiting := waiting (blockProcessingQueue s) @
                        map (rangeJob a c es) (subranges lo hi bsize)\<rparr>\<rparr>) \<and>
         (\<forall>r \<in> set (subranges lo hi bsize). fst r \<le> snd r \<and> snd r - fst r + 1 \<le> bsize) \<and>
         sorted_wrt (\<lambda>r r'. snd r < fst r') (subranges lo hi bsize) \<and>
         concat (map (\<lambda>r. [fst r..snd r]) (subranges lo hi bsize)) = [lo..hi]"
proof -
  let ?n = "nat ((hi - lo) div bsize + 1)"
  have pos: "0 < ?n"
    using index_in_range [OF assms(2,1), of 0] assms(1) by simp
  have loop: "batchLoop bsize a c es hi lo s =
           Some (Inr True,
                 s\<lparr>blockProcessingQueue :=
                     (blockProcessingQueue s)\<lparr>waiting := waiting (blockProcessingQueue s) @
                        map (rangeJob a c es) (subranges lo hi bsize)\<rparr>\<rparr>)"
    using batchLoop_from_index [OF assms(2,1,3,4) pos, of es] by (simp add: subranges_sub)
  have sizes: "\<forall>r \<in> set (subranges lo hi bsize). fst r \<le> snd r \<and> snd r - fst r + 1 \<le> bsize"
    using sub_bounds [OF assms(2,1)] by (auto simp: subranges_sub)
  have "sorted_wrt (\<lambda>i j. snd (sub lo hi bsize i) < fst (sub lo hi bsize j)) [0..<?n]"
    using sub_ascending [OF assms(2)]
    by (intro sorted_wrt_mono_rel [OF _ sorted_wrt_upt]) blast
  then have asc: "sorted_wrt (\<lambda>r r'. snd r < fst r') (subranges lo hi bsize)"
    by (simp add: subranges_sub sorted_wrt_map)
  have cover: "concat (map (\<lambda>r. [fst r..snd r]) (subranges lo hi bsize)) = [lo..hi]"
    using sub_cover [OF assms(2,1) pos] by (simp add: subranges_sub)
  show ?thesis
    using loop sizes asc cover by blast
qed

theorem batchLoop_subranges_witness:
  "subranges 100 349 100 = [(100, 199), (200, 299), (300, 349)] \<and>
   batchLoop 100 ''0xab'' 137 [''Transfer''] 349 100 (sample_system [sample_row 99 True]) =
     Some (Inr True,
           (sample_system [sample_row 99 True])
             \<lparr>blockProcessingQueue := sample_queue
                \<lparr>waiting := map (rangeJob ''0xab'' 137 [''Transfer''])
                              [(100, 199), (200, 299), (300, 349)]\<rparr>\<rparr>)"
proof -
  have ranges: "subranges 100 349 100 = [(100, 199), (200, 299), (300, 349)]"
    by (simp add: subranges_def upt_rec)
  have "syncing (getIndexingStatus ''0xab'' 137 (sample_system [sample_row 99 True]))"
    by (simp add: syncing_def getIndexingStatus_def findOne_progress_def sample_system_def
          sample_row_def toLowerCase_def lowerChar_def)
  moreover have "connected (blockProcessingQueue (sample_system [sample_row 99 True]))"
    by (simp add: sample_system_def sample_queue_def)
  ultimately show ?thesis
    using batchLoop_subranges [of 100 349 100 "''0xab''" 137 "sample_system [sample_row 99 True]"
            "[''Transfer'']"] ranges
    by (simp add: sample_system_def sample_queue_def)
qed

subsection \<open>Caught up\<close>

text \<open>
  C5 (amended). A run that finds the entity syncing and
  \<open>lastProcessedBlock \<ge> currentHeight - 1\<close> clears \<open>isSyncing\<close> and, the indexing queue
  taking jobs, schedules one \<open>start-indexing\<close> job delayed by 30000 ms. It submits no
  sub-range and no immediate re-run. (The delay is shorter than the 60000 ms of the re-run
  after a catch-up pass.)
\<close>

theorem handleStartIndexing_caught_up:
  assumes "getIndexingStatus a c s = Some p" and "ip_isSyncing p"
    and "getCurrentBlockNumber ldg = Inr h" and "ip_lastProcessedBlock p \<ge> h - 1"
    and "connected (indexingQueue s)"
  shows "\<exists>s'. handleStartIndexing cfg ldg a c es s = Some (Inr (), s') \<and>
           \<not> syncing (getIndexingStatus a c s') \<and>
           delayed (indexingQueue s') = delayed (indexingQueue s) @
             [\<lparr>job_name = ''start-indexing'', job_data = StartIndexingData a c es,
               job_opts = \<lparr>opt_priority = None, opt_delay = Some 30000,
                           opt_attempts = Some 1, opt_backoff = None\<rparr>\<rparr>] \<and>
           waiting (indexingQueue s') = waiting (indexingQueue s) \<and>
           blockProcessingQueue s' = blockProcessingQueue s \<and>
           eventProcessingQueue s' = eventProcessingQueue s"
proof -
  have "\<not> syncing (getIndexingStatus a c (updateSyncingStatus a c False s))"
    using syncing_after_clear [of "toLowerCase a" c "indexingProgressRepository s"]
    by (simp add: getIndexingStatus_def updateSyncingStatus_def)
  then show ?thesis
    using assms
    by (simp add: handleStartIndexing_def handleStartIndexing_try_def Let_def
        scheduleNextIndexing_def queue_add_def updateSyncingStatus_def getIndexingStatus_def)
qed

theorem handleStartIndexing_caught_up_witness:
  "\<exists>s'. handleStartIndexing (sample_config []) (sample_ledger 300 []) ''0xab'' 137 [''Transfer'']
          (sample_system [sample_row 299 True]) = Some (Inr (), s') \<and>
        \<not> syncing (getIndexingStatus ''0xab'' 137 s') \<and>
        delayed (indexingQueue s') =
          [\<lparr>job_name = ''start-indexing'',
            job_data = StartIndexingData ''0xab'' 137 [''Transfer''],
            job_opts = \<lparr>opt_priority = None, opt_delay = Some 30000,
                        opt_attempts = Some 1, opt_backoff = None\<rparr>\<rparr>] \<and>
        waiting (indexingQueue s') = [] \<and>
        blockProcessingQueue s' = sample_queue"
proof -
  have "getIndexingStatus ''0xab'' 137 (sample_system [sample_row 299 True]) =
        Some (sample_row 299 True)"
    by (simp add: getIndexingStatus_def findOne_progress_def sample_system_def sample_row_def
          toLowerCase_def lowerChar_def)
  from handleStartIndexing_caught_up [OF this, of "sample_ledger 300 []" 300
         "sample_config []" "[''Transfer'']"]
  show ?thesis
    by (auto simp: sample_row_def sample_ledger_def sample_system_def sample_queue_def)
qed

text \<open>
  The recheck of a caught-up entity is delayed by 30000 ms; the re-run that follows a
  catch-up pass is delayed by 60000 ms. The monitoring period is the shorter one.
\<close>

theorem handleStartIndexing_cadence_counterexample:
  "map_option (\<lambda>r. map (opt_delay \<circ> job_opts) (delayed (indexingQueue (snd r))))
     (handleStartIndexing (sample_config []) (sample_ledger 300 []) ''0xab'' 137 [''Transfer'']
        (sample_system [sample_row 299 True])) = Some [Some 30000] \<and>
   map_option (\<lambda>r. map (opt_delay \<circ> job_opts) (delayed (indexingQueue (snd r))))
     (handleStartIndexing (sample_config []) (sample_ledger 349 []) ''0xab'' 137 [''Transfer'']
        (sample_system [sample_row 99 True])) = Some [Some 60000]"
  by (simp add: handleStartIndexing_def handleStartIndexing_try_def batchLoop.simps
      getIndexingStatus_def findOne_progress_def sample_system_def sample_row_def sample_queue_def
      sample_ledger_def sample_config_def toLowerCase_def lowerChar_def Let_def syncing_def
      queue_add_def scheduleNextIndexing_def updateSyncingStatus_def update_where_def
      is_entity_def)

subsection \<open>The cursor across operations\<close>

lemma cursor_kept_refl [simp]: "cursor_kept rows rows"
  by (simp add: cursor_kept_def)

lemma cursor_kept_trans: "cursor_kept r1 r2 \<Longrightarrow> cursor_kept r2 r3 \<Longrightarrow> cursor_kept r1 r3"
  by (simp add: cursor_kept_def)

lemma cursor_kept_update:
  assumes "\<And>r. ip_contractAddress (f r) = ip_contractAddress r"
    and "\<And>r. ip_chainId (f r) = ip_chainId r"
    and "\<And>r. ip_lastProcessedBlock (f r) = ip_lastProcessedBlock r"
  shows "cursor_kept rows (update_where crit f rows)"
proof -
  have "find (\<lambda>r. ip_contractAddress r = a \<and> ip_chainId r = c) (update_where crit f rows)
        = map_option (\<lambda>r. if crit r then f r else r)
            (find (\<lambda>r. ip_contractAddress r = a \<and> ip_chainId r = c) rows)" for a c
    by (rule find_update_where) (simp add: assms)
  then have "map_option ip_lastProcessedBlock (findOne_progress a c (update_where crit f rows))
             = map_option ip_lastProcessedBlock (findOne_progress a c rows)" for a c
    by (cases "find (\<lambda>r. ip_contractAddress r = a \<and> ip_chainId r = c) rows")
       (simp_all add: findOne_progress_def assms)
  then show ?thesis
    by (simp add: cursor_kept_def)
qed

lemma find_append_Some: "find P xs = Some x \<Longrightarrow> find P (xs @ ys) = Some x"
  by (induction xs) (auto split: if_splits)

lemma cursor_kept_append: "cursor_kept rows (rows @ [r])"
  by (auto simp: cursor_kept_def findOne_progress_def find_append_Some)

lemma cursor_kept_flag [simp]:
  "cursor_kept rows (update_where crit (\<lambda>r. r\<lparr>ip_isSyncing := b\<rparr>) rows)"
  by (rule cursor_kept_update) simp_all

lemma cursor_kept_flag_time [simp]:
  "cursor_kept rows (update_where crit (\<lambda>r. r\<lparr>ip_isSyncing := b, ip_updatedAt := t\<rparr>) rows)"
  by (rule cursor_kept_update) simp_all

lemma cursor_kept_count [simp]:
  "cursor_kept rows
     (update_where crit (\<lambda>r. r\<lparr>ip_totalEventsProcessed := ip_totalEventsProcessed r + 1\<rparr>) rows)"
  by (rule cursor_kept_update) simp_all

lemma updateSyncingStatus_kept:
  "cursor_kept (indexingProgressRepository s)
     (indexingProgressRepository (updateSyncingStatus a c b s))"
  by (simp add: updateSyncingStatus_def)

lemma startIndexing_kept:
  "cursor_kept (indexingProgressRepository s)
     (indexingProgressRepository (snd (startIndexing cfg ldg a s)))"
  by (auto simp: startIndexing_def Let_def updateSyncingStatus_def cursor_kept_append
      split: option.splits sum.splits prod.splits if_splits)

lemma processTokenEvent_kept:
  "cursor_kept (indexingProgressRepository s)
     (indexingProgressRepository (snd (processTokenEvent d s)))"
  by (auto simp: processTokenEvent_def processTokenEvent_try_def Let_def
      processTransferEvent_def storeFailedEvent_def
      split: option.splits sum.splits prod.splits if_splits list.splits)

lemma stopIndexing_found:
  assumes "findOne_progress (toLowerCase a) c (indexingProgressRepository s) \<noteq> None"
  shows "stopIndexing a c s =
     (Inr (), snd (removeContractJobs a c
        (s\<lparr>indexingProgressRepository :=
             update_where (is_entity (toLowerCase a) c) (\<lambda>r. r\<lparr>ip_isSyncing := False\<rparr>)
               (indexingProgressRepository s)\<rparr>)))"
  using assms removeContractJobs_success
    [of a c "s\<lparr>indexingProgressRepository :=
             update_where (is_entity (toLowerCase a) c) (\<lambda>r. r\<lparr>ip_isSyncing := False\<rparr>)
               (indexingProgressRepository s)\<rparr>"]
  by (auto simp: stopIndexing_def Let_def split: prod.splits sum.splits)

lemma stopIndexing_kept:
  "cursor_kept (indexingProgressRepository s)
     (indexingProgressRepository (snd (stopIndexing a c s)))"
proof (cases "findOne_progress (toLowerCase a) c (indexingProgressRepository s)")
  case None
  then show ?thesis by (simp add: stopIndexing_def)
next
  case (Some p)
  then show ?thesis
    by (simp add: stopIndexing_found removeContractJobs_progress)
qed

lemma batchLoop_progress:
  assumes "batchLoop bsize a c es hi lo s = Some y"
  shows "indexingProgressRepository (snd y) = indexingProgressRepository s"
  using assms
proof (induction rule: batchLoop.raw_induct [rotated 1, consumes 1])
  case (1 batchLoop bsize a c es hi lo s y)
  note IH = "1"(1) and eq = "1"(2)
  show ?case
  proof (cases "lo \<le> hi \<and> syncing (getIndexingStatus a c s)")
    case False
    then show ?thesis
      using eq by (auto split: if_splits)
  next
    case True
    let ?add = "queue_add (blockProcessingQueue s) ''process-block-range''
                  (BlockRangeData \<lparr>ij_contractAddress = a, ij_chainId = c, ij_fromBlock = lo,
                     ij_toBlock = min (lo + bsize - 1) hi, ij_events = es\<rparr>)
                  \<lparr>opt_priority = None, opt_delay = None, opt_attempts = Some 3,
                   opt_backoff = Some (''exponential'', 5000)\<rparr>"
    show ?thesis
    proof (cases ?add)
      case (Inl e)
      then show ?thesis
        using eq True by (auto simp: Let_def)
    next
      case (Inr q)
      then have "batchLoop bsize a c es hi (min (lo + bsize - 1) hi + 1)
                   (s\<lparr>blockProcessingQueue := q\<rparr>) = Some y"
        using eq True by (simp add: Let_def)
      from IH [OF this] show ?thesis by simp
    qed
  qed
qed

lemma scheduleNextIndexing_progress:
  "indexingProgressRepository (snd (scheduleNextIndexing a c es d s)) = indexingProgressRepository s"
  by (simp add: scheduleNextIndexing_def split: sum.splits)

lemma handleStartIndexing_try_kept:
  assumes "handleStartIndexing_try cfg ldg a c es s = Some y"
  shows "cursor_kept (indexingProgressRepository s) (indexingProgressRepository (snd y))"
proof (cases "getIndexingStatus a c s")
  case None
  then show ?thesis
    using assms by (auto simp: handleStartIndexing_try_def)
next
  case (Some p)
  show ?thesis
  proof (cases "ip_isSyncing p")
    case False
    then show ?thesis
      using assms Some by (auto simp: handleStartIndexing_try_def)
  next
    case True
    show ?thesis
    proof (cases "getCurrentBlockNumber ldg")
      case (Inl e)
      then show ?thesis
        using assms Some True by (auto simp: handleStartIndexing_try_def)
    next
      case (Inr h)
      show ?thesis
      proof (cases "ip_lastProcessedBlock p \<ge> h - 1")
        case True
        then have "y = scheduleNextIndexing a c es 30000 (updateSyncingStatus a c False s)"
          using assms Some \<open>ip_isSyncing p\<close> Inr
          by (simp add: handleStartIndexing_try_def Let_def)
        then show ?thesis
          by (simp add: scheduleNextIndexing_progress updateSyncingStatus_kept)
      next
        case False
        let ?loop = "batchLoop (batchSize cfg) a c es h (ip_lastProcessedBlock p + 1) s"
        have eq: "(case ?loop of
                     None \<Rightarrow> None
                   | Some (Inl e, s1) \<Rightarrow> Some (Inl e, s1)
                   | Some (Inr False, s1) \<Rightarrow> Some (Inr (), s1)
                   | Some (Inr True, s1) \<Rightarrow>
                       if syncing (getIndexingStatus a c s1)
                       then Some (scheduleNextIndexing a c es 60000 s1)
                       else Some (Inr (), s1)) = Some y"
          using assms Some \<open>ip_isSyncing p\<close> Inr False
          by (simp add: handleStartIndexing_try_def Let_def)
        then obtain r s1 where z: "?loop = Some (r, s1)"
          by (cases ?loop) auto
        have zp: "indexingProgressRepository s1 = indexingProgressRepository s"
          using batchLoop_progress [OF z] by simp
        have "indexingProgressRepository (snd y) = indexingProgressRepository s1"
        proof (cases r)
          case (Inl e)
          then show ?thesis using eq z by auto
        next
          case (Inr b)
          then show ?thesis
            using eq z by (cases b) (auto simp: scheduleNextIndexing_progress split: if_splits)
        qed
        then show ?thesis
          using zp by simp
      qed
    qed
  qed
qed

lemma handleStartIndexing_kept:
  assumes "handleStartIndexing cfg ldg a c es s = Some y"
  shows "cursor_kept (indexingProgressRepository s) (indexingProgressRepository (snd y))"
proof -
  obtain r s1 where z: "handleStartIndexing_try cfg ldg a c es s = Some (r, s1)"
    using assms by (cases "handleStartIndexing_try cfg ldg a c es s") (auto simp: handleStartIndexing_def)
  have "cursor_kept (indexingProgressRepository s1) (indexingProgressRepository (snd y))"
    using assms z
    by (cases r) (auto simp: handleStartIndexing_def updateSyncingStatus_kept)
  with handleStartIndexing_try_kept [OF z] show ?thesis
    by (auto intro: cursor_kept_trans)
qed

lemma resumeContractIndexing_kept:
  "cursor_kept (indexingProgressRepository (snd cs))
     (indexingProgressRepository (snd (resumeContractIndexing cfg ldg contract cs)))"
  by (cases cs) (auto simp: resumeContractIndexing_def startIndexing_kept split: option.splits)

lemma fold_resume_kept:
  "cursor_kept (indexingProgressRepository (snd cs))
     (indexingProgressRepository (snd (fold (resumeContractIndexing cfg ldg) xs cs)))"
proof (induction xs arbitrary: cs)
  case Nil
  then show ?case by simp
next
  case (Cons x xs)
  show ?case
    using resumeContractIndexing_kept [of cs cfg ldg x]
      Cons.IH [of "resumeContractIndexing cfg ldg x cs"]
    by (auto intro: cursor_kept_trans)
qed

lemma resumeIndexing_kept:
  "cursor_kept (indexingProgressRepository s)
     (indexingProgressRepository (snd (resumeIndexing cfg ldg s)))"
proof -
  have "cursor_kept (indexingProgressRepository s)
          (indexingProgressRepository (resetStuckSyncingStates s))"
    by (simp add: resetStuckSyncingStates_def)
  then show ?thesis
    using fold_resume_kept [of "([ResetStuckCall], resetStuckSyncingStates s)" cfg ldg]
    by (auto simp: resumeIndexing_def Let_def intro: cursor_kept_trans)
qed

lemma waitLoop_progress:
  "indexingProgressRepository (fst (waitLoop env timeoutMs startTime sl)) =
   indexingProgressRepository (fst sl)"
proof (induction env timeoutMs startTime sl rule: waitLoop.induct)
  case (1 env timeoutMs startTime s lg)
  show ?case
  proof (cases "clock s - startTime < timeoutMs")
    case False
    then show ?thesis by (simp add: waitLoop.simps)
  next
    case True
    obtain n lg1 where c: "countActive env (clock s) queueNames (0, lg) = (n, lg1)"
      by (cases "countActive env (clock s) queueNames (0, lg)")
    show ?thesis
    proof (cases "n = 0")
      case True
      then show ?thesis
        using \<open>clock s - startTime < timeoutMs\<close> c by (simp add: waitLoop.simps [of _ _ _ s])
    next
      case False
      then show ?thesis
        using \<open>clock s - startTime < timeoutMs\<close> c
          "1.IH" [OF \<open>clock s - startTime < timeoutMs\<close> c [symmetric] False]
        by (simp add: waitLoop.simps [of _ _ _ s])
    qed
  qed
qed

lemma closeQueues_progress:
  "indexingProgressRepository (fst (closeQueues sl)) = indexingProgressRepository (fst sl)"
  by (cases sl) (auto simp: closeQueues_def Let_def split: sum.splits prod.splits)

lemma onApplicationShutdown_kept:
  "cursor_kept (indexingProgressRepository s)
     (indexingProgressRepository (fst (onApplicationShutdown env s)))"
proof -
  obtain s1 lg1 where m: "markSyncingAsStopped (s, [ShutdownInitiated]) = (s1, lg1)"
    by (cases "markSyncingAsStopped (s, [ShutdownInitiated])")
  have "indexingProgressRepository (fst (onApplicationShutdown env s)) =
        indexingProgressRepository (fst (closeQueues (waitForActiveJobs env defaultTimeoutMs (s1, lg1))))"
    using m by (simp add: onApplicationShutdown_def split: prod.splits)
  also have "\<dots> = indexingProgressRepository s1"
    by (simp add: closeQueues_progress waitForActiveJobs_def waitLoop_progress)
  finally show ?thesis
    using m by (auto simp: markSyncingAsStopped_def Let_def)
qed

lemma processBlockRange_rows:
  "indexingProgressRepository (snd (processBlockRange ldg j s)) = indexingProgressRepository s \<or>
   indexingProgressRepository (snd (processBlockRange ldg j s)) =
     update_where (is_entity (ij_contractAddress j) (ij_chainId j))
       (\<lambda>r. r\<lparr>ip_lastProcessedBlock := ij_toBlock j\<rparr>) (indexingProgressRepository s)"
  by (auto simp: processBlockRange_def Let_def split: sum.splits)

lemma find_update_other:
  assumes "\<And>r. crit r \<Longrightarrow> \<not> P r \<and> \<not> P (f r)"
  shows "find P (update_where crit f rows) = find P rows"
  using assms by (induction rows) (auto simp: update_where_def)

lemma cursor_other_entity:
  assumes "\<not> (a' = a \<and> c' = c)"
  shows "cursor a c (s\<lparr>indexingProgressRepository :=
            update_where (is_entity a' c') (\<lambda>r. r\<lparr>ip_lastProcessedBlock := t\<rparr>)
              (indexingProgressRepository s)\<rparr>) = cursor a c s"
proof -
  have "find (\<lambda>r. ip_contractAddress r = a \<and> ip_chainId r = c)
          (update_where (is_entity a' c') (\<lambda>r. r\<lparr>ip_lastProcessedBlock := t\<rparr>)
             (indexingProgressRepository s))
        = find (\<lambda>r. ip_contractAddress r = a \<and> ip_chainId r = c) (indexingProgressRepository s)"
    using assms by (intro find_update_other) (auto simp: is_entity_def)
  then show ?thesis
    by (simp add: cursor_def findOne_progress_def)
qed

lemma processBlockRange_cursor:
  assumes "cursor a c s = Some b" and "keeps_cursor a c s (ProcessBlockRange ldg j)"
  shows "\<exists>b'. cursor a c (snd (processBlockRange ldg j s)) = Some b' \<and> b \<le> b'"
proof -
  let ?s' = "snd (processBlockRange ldg j s)"
  let ?upd = "s\<lparr>indexingProgressRepository :=
                 update_where (is_entity (ij_contractAddress j) (ij_chainId j))
                   (\<lambda>r. r\<lparr>ip_lastProcessedBlock := ij_toBlock j\<rparr>)
                   (indexingProgressRepository s)\<rparr>"
  consider "indexingProgressRepository ?s' = indexingProgressRepository s"
    | "indexingProgressRepository ?s' = indexingProgressRepository ?upd"
    using processBlockRange_rows [of ldg j s] by auto
  then show ?thesis
  proof cases
    case 1
    then have "cursor a c ?s' = cursor a c s" by (simp add: cursor_def)
    then show ?thesis using assms(1) by simp
  next
    case 2
    then have eq: "cursor a c ?s' = cursor a c ?upd" by (simp add: cursor_def)
    show ?thesis
    proof (cases "ij_contractAddress j = a \<and> ij_chainId j = c")
      case True
      then have "cursor a c ?upd = Some (ij_toBlock j)"
        using cursor_update_where [of a c "ij_toBlock j" s] assms(1) by simp
      moreover have "b \<le> ij_toBlock j"
        using assms True by simp
      ultimately show ?thesis using eq by simp
    next
      case False
      then have "cursor a c ?upd = cursor a c s"
        by (intro cursor_other_entity) simp
      then show ?thesis using eq assms(1) by simp
    qed
  qed
qed

lemma cursor_kept_cursor:
  assumes "cursor_kept (indexingProgressRepository s) (indexingProgressRepository s')"
    and "cursor a c s = Some b"
  shows "cursor a c s' = Some b"
  using assms by (simp add: cursor_kept_def cursor_def)

lemma step_cursor:
  assumes "step op s = Some s'" and "cursor a c s = Some b" and "keeps_cursor a c s op"
  shows "\<exists>b'. cursor a c s' = Some b' \<and> b \<le> b'"
proof (cases op)
  case (StartIndexing cfg ldg x)
  then show ?thesis
    using assms cursor_kept_cursor [OF startIndexing_kept] by auto
next
  case (ProcessBlockRange ldg j)
  then show ?thesis
    using assms processBlockRange_cursor [of a c s b ldg j] by auto
next
  case (ProcessTokenEvent d)
  then show ?thesis
    using assms cursor_kept_cursor [OF processTokenEvent_kept] by auto
next
  case (StopIndexing x y)
  then show ?thesis
    using assms cursor_kept_cursor [OF stopIndexing_kept] by auto
next
  case (UpdateSyncingStatus x y z)
  then show ?thesis
    using assms cursor_kept_cursor [OF updateSyncingStatus_kept] by auto
next
  case (HandleStartIndexing cfg ldg x y es)
  then obtain r where "handleStartIndexing cfg ldg x y es s = Some r" "s' = snd r"
    using assms(1) by auto
  then show ?thesis
    using assms(2) cursor_kept_cursor [OF handleStartIndexing_kept] by auto
next
  case (ResumeIndexing cfg ldg)
  then show ?thesis
    using assms cursor_kept_cursor [OF resumeIndexing_kept] by auto
next
  case (OnApplicationShutdown env)
  then show ?thesis
    using assms cursor_kept_cursor [OF onApplicationShutdown_kept] by auto
qed

text \<open>
  C1 (amended). \<open>processBlockRange\<close> writes \<open>lastProcessedBlock = toBlock\<close> whatever the
  row holds, and every other operation leaves the cursor of an existing row as it is.
  So, for every entity with a row, the cursor is non-decreasing across every sequence of
  operations in which no \<open>process-block-range\<close> job of the entity runs with a \<open>toBlock\<close>
  below the cursor of that moment.
\<close>

theorem cursor_monotone_in_order:
  assumes "run ops s = Some s'" and "cursor a c s = Some b" and "in_order a c ops s"
  shows "\<exists>b'. cursor a c s' = Some b' \<and> b \<le> b'"
  using assms
proof (induction ops arbitrary: s b)
  case Nil
  then show ?case by simp
next
  case (Cons op ops)
  from Cons.prems(1) obtain s1 where s1: "step op s = Some s1" "run ops s1 = Some s'"
    by (auto split: option.splits)
  from Cons.prems(3) s1(1) have ok: "keeps_cursor a c s op" "in_order a c ops s1"
    by simp_all
  from step_cursor [OF s1(1) Cons.prems(2) ok(1)]
  obtain b1 where b1: "cursor a c s1 = Some b1" "b \<le> b1" by blast
  from Cons.IH [OF s1(2) b1(1) ok(2)]
  obtain b' where "cursor a c s' = Some b'" "b1 \<le> b'" by blast
  then show ?case using b1(2) by auto
qed

lemma sample_ops_run:
  "run sample_ops (sample_system [sample_row 99 True]) =
   Some ((sample_system [(sample_row 299 False)\<lparr>ip_totalEventsProcessed := 1\<rparr>])
     \<lparr>tokenTransferRepository :=
        [\<lparr>tt_transactionHash = ''0x01'', tt_logIndex = 0, tt_blockNumber = 150,
          tt_blockHash = ''0xb1'', tt_contractAddress = ''0xab'', tt_fromAddress = ''0xaa'',
          tt_toAddress = ''0xbb'', tt_value = ''5'', tt_chainId = 137, tt_processedAt = 0\<rparr>]\<rparr>)"
  by (simp add: sample_ops_def sample_system_def sample_row_def sample_ledger_def
      sample_range_def sample_event_def sample_job_def sample_queue_def eventJob_def
      processBlockRange_def processTokenEvent_def processTokenEvent_try_def
      processTransferEvent_def stopIndexing_def removeContractJobs_def
      removeContractJobs_try_def queue_removePending_def queue_add_def job_matches_def
      findOne_transfer_def findOne_progress_def update_where_def is_entity_def
      toLowerCase_def lowerChar_def Let_def)

theorem cursor_monotone_in_order_witness:
  "\<exists>s'. run sample_ops (sample_system [sample_row 99 True]) = Some s' \<and>
        cursor ''0xab'' 137 (sample_system [sample_row 99 True]) = Some 99 \<and>
        in_order ''0xab'' 137 sample_ops (sample_system [sample_row 99 True]) \<and>
        (\<exists>b'. cursor ''0xab'' 137 s' = Some b' \<and> 99 \<le> b')"
proof -
  have c: "cursor ''0xab'' 137 (sample_system [sample_row 99 True]) = Some 99"
    by (simp add: cursor_def findOne_progress_def sample_system_def sample_row_def)
  have o: "in_order ''0xab'' 137 sample_ops (sample_system [sample_row 99 True])"
    by (simp add: sample_ops_def sample_system_def sample_row_def sample_ledger_def
      sample_range_def sample_event_def sample_job_def sample_queue_def cursor_def
      processBlockRange_def processTokenEvent_def processTokenEvent_try_def
      processTransferEvent_def queue_add_def
      findOne_transfer_def findOne_progress_def update_where_def is_entity_def
      toLowerCase_def lowerChar_def Let_def)
  show ?thesis
    using cursor_monotone_in_order [OF sample_ops_run c o] sample_ops_run c o by blast
qed

text \<open>
  Two sub-ranges of one run that complete out of order: the cursor goes to 299 and then
  back to 199.
\<close>

theorem cursor_lowered_counterexample:
  "map_option (cursor ''0xab'' 137)
     (run [ProcessBlockRange (sample_ledger 400 []) (sample_range 200 299)]
        (sample_system [sample_row 99 True])) = Some (Some 299) \<and>
   map_option (cursor ''0xab'' 137)
     (run [ProcessBlockRange (sample_ledger 400 []) (sample_range 200 299),
           ProcessBlockRange (sample_ledger 400 []) (sample_range 100 199)]
        (sample_system [sample_row 99 True])) = Some (Some 199)"
  by (simp add: sample_system_def sample_row_def sample_ledger_def sample_range_def
      sample_queue_def processBlockRange_def cursor_def findOne_progress_def update_where_def
      is_entity_def Let_def)

subsection \<open>Health monitor\<close>

lemma worsen_unhealthy [simp]: "worsen unhealthy = unhealthy"
  by (simp add: worsen_def)

lemma getSystemHealth_caught:
  assumes "getSystemHealth_try env = Inl e"
  shows "\<exists>r. getSystemHealth env = Inr r \<and> hs_status r = unhealthy \<and>
             hs_issues r = [''System health check failed'']"
  using assms by (simp add: getSystemHealth_def)

lemma getSystemHealth_returned:
  assumes "getSystemHealth_try env = Inr r"
  shows "getSystemHealth env = Inr r"
  using assms by (simp add: getSystemHealth_def)

lemma health_rule_unhealthy:
  assumes "snd acc = unhealthy" and "f unhealthy = unhealthy"
  shows "snd (health_rule cond issue f acc) = unhealthy"
  using assms by (cases acc) (simp add: health_rule_def)

lemma health_rule_issue_kept:
  assumes "x \<in> set (fst acc)"
  shows "x \<in> set (fst (health_rule cond issue f acc))"
  using assms by (cases acc) (simp add: health_rule_def)

lemma health_rule_fires:
  assumes "cond"
  shows "health_rule cond issue (\<lambda>status. unhealthy) acc = (fst acc @ [issue], unhealthy)"
  using assms by (cases acc) (simp add: health_rule_def)

lemma try_disconnected:
  assumes "getSystemHealth_try env = Inr r" and "checkBlockchainHealth env = Inr b"
    and "\<not> bh_connected b"
  shows "hs_status r = unhealthy \<and> ''Blockchain RPC connection failed'' \<in> set (hs_issues r)"
proof -
  let ?acc1 = "health_rule (\<not> bh_connected b) ''Blockchain RPC connection failed''
                 (\<lambda>status. unhealthy) ([], healthy)"
  have "snd ?acc1 = unhealthy" "''Blockchain RPC connection failed'' \<in> set (fst ?acc1)"
    using assms(3) by (simp_all add: health_rule_fires)
  then show ?thesis
    using assms(1,2)
    by (auto simp: getSystemHealth_try_def Let_def health_rule_unhealthy health_rule_issue_kept
        split: option.splits)
qed

lemma try_database_down:
  assumes "getSystemHealth_try env = Inr r" and "\<not> dh_connected (checkDatabaseHealth env)"
  shows "hs_status r = unhealthy \<and> ''Database connection failed'' \<in> set (hs_issues r)"
proof -
  obtain b where b: "checkBlockchainHealth env = Inr b"
    using assms(1) by (cases "checkBlockchainHealth env") (auto simp: getSystemHealth_try_def)
  show ?thesis
    using assms b
    by (auto simp: getSystemHealth_try_def Let_def health_rule_fires health_rule_unhealthy
        health_rule_issue_kept split: option.splits)
qed

lemma checkBlockchainHealth_failed:
  assumes "he_latestBlock env = Inl e" and "checkBlockchainHealth env = Inr b"
  shows "\<not> bh_connected b"
  using assms by (auto simp: checkBlockchainHealth_def split: sum.splits)

lemma checkDatabaseHealth_failed:
  assumes "(\<exists>e. he_total env = Inl e) \<or> (\<exists>e. he_failedEvents env = Inl e)"
  shows "\<not> dh_connected (checkDatabaseHealth env)"
  using assms by (auto simp: checkDatabaseHealth_def split: sum.splits)

lemma checkIndexingHealth_failed:
  assumes "(\<exists>e. he_contracts env = Inl e) \<or> (\<exists>e. he_allProgress env = Inl e) \<or>
           (\<exists>e. he_currentBlock env = Inl e)"
  shows "checkIndexingHealth env =
         \<lparr>ih_totalContracts = 0, ih_activelyIndexing = 0, ih_syncLag = [],
          ih_avgProcessingTime = 0\<rparr>"
  using assms by (auto simp: checkIndexingHealth_def Let_def split: sum.splits)

lemma indexing_failure_unseen:
  assumes "(\<exists>e. he_contracts env = Inl e) \<or> (\<exists>e. he_allProgress env = Inl e) \<or>
           (\<exists>e. he_currentBlock env = Inl e)"
    and "he_latestBlock env = Inr h" and "he_rpcUrl env = Inr u"
    and "he_total env = Inr t" and "he_failedEvents env = Inr n" and "n \<le> 100"
  shows "\<exists>r. getSystemHealth env = Inr r \<and> hs_status r = healthy \<and> hs_issues r = [] \<and>
             hs_indexing r = \<lparr>ih_totalContracts = 0, ih_activelyIndexing = 0, ih_syncLag = [],
                               ih_avgProcessingTime = 0\<rparr>"
  using assms(2-6)
  by (simp add: getSystemHealth_def getSystemHealth_try_def checkBlockchainHealth_def
      checkDatabaseHealth_def checkIndexingHealth_failed [OF assms(1)] health_rule_def Let_def)

text \<open>
  C8 (amended). Whatever each call on a collaborator answers or throws,
  \<open>getSystemHealth\<close> returns a report and throws nothing. When the body of its \<open>try\<close>
  throws, the report is \<open>unhealthy\<close> with the one issue \<open>System health check failed\<close>. A
  failed height query of the connectivity check, and a failed query of the database
  check, also give an \<open>unhealthy\<close> report that names the failure among its issues. A call
  that fails inside the indexing check (the configuration read, \<open>find()\<close> on the progress
  repository, the second height query) is caught there: the check reports zeros and no
  issue is added, so with the other checks passing the report is \<open>healthy\<close> with no issue.
\<close>

theorem getSystemHealth_never_throws:
  "\<exists>r. getSystemHealth env = Inr r \<and>
       ((\<exists>e. getSystemHealth_try env = Inl e) \<longrightarrow>
          hs_status r = unhealthy \<and> hs_issues r = [''System health check failed'']) \<and>
       ((\<exists>e. he_latestBlock env = Inl e) \<longrightarrow>
          hs_status r = unhealthy \<and>
          (''Blockchain RPC connection failed'' \<in> set (hs_issues r) \<or>
           hs_issues r = [''System health check failed''])) \<and>
       ((\<exists>e. he_total env = Inl e) \<or> (\<exists>e. he_failedEvents env = Inl e) \<longrightarrow>
          hs_status r = unhealthy \<and>
          (''Database connection failed'' \<in> set (hs_issues r) \<or>
           hs_issues r = [''System health check failed''])) \<and>
       (((\<exists>e. he_contracts env = Inl e) \<or> (\<exists>e. he_allProgress env = Inl e) \<or>
         (\<exists>e. he_currentBlock env = Inl e)) \<and>
        (\<exists>h. he_latestBlock env = Inr h) \<and> (\<exists>u. he_rpcUrl env = Inr u) \<and>
        (\<exists>t. he_total env = Inr t) \<and> (\<exists>n. he_failedEvents env = Inr n \<and> n \<le> 100) \<longrightarrow>
          hs_status r = healthy \<and> hs_issues r = [] \<and>
          hs_indexing r = \<lparr>ih_totalContracts = 0, ih_activelyIndexing = 0, ih_syncLag = [],
                            ih_avgProcessingTime = 0\<rparr>)"
proof (cases "getSystemHealth_try env")
  case (Inl e)
  then have "\<not> (\<exists>u. he_rpcUrl env = Inr u)"
    by (auto simp: getSystemHealth_try_def checkBlockchainHealth_def Let_def split: sum.splits)
  then show ?thesis
    using getSystemHealth_caught [OF Inl] Inl by auto
next
  case (Inr r)
  then obtain b where b: "checkBlockchainHealth env = Inr b"
    by (cases "checkBlockchainHealth env") (auto simp: getSystemHealth_try_def)
  have chain: "hs_status r = unhealthy \<and> ''Blockchain RPC connection failed'' \<in> set (hs_issues r)"
    if "\<exists>e. he_latestBlock env = Inl e"
    using that try_disconnected [OF Inr b] checkBlockchainHealth_failed [OF _ b] by blast
  have db: "hs_status r = unhealthy \<and> ''Database connection failed'' \<in> set (hs_issues r)"
    if "(\<exists>e. he_total env = Inl e) \<or> (\<exists>e. he_failedEvents env = Inl e)"
    using that try_database_down [OF Inr] checkDatabaseHealth_failed by blast
  have unseen: "hs_status r = healthy \<and> hs_issues r = [] \<and>
          hs_indexing r = \<lparr>ih_totalContracts = 0, ih_activelyIndexing = 0, ih_syncLag = [],
                            ih_avgProcessingTime = 0\<rparr>"
    if "((\<exists>e. he_contracts env = Inl e) \<or> (\<exists>e. he_allProgress env = Inl e) \<or>
         (\<exists>e. he_currentBlock env = Inl e)) \<and>
        (\<exists>h. he_latestBlock env = Inr h) \<and> (\<exists>u. he_rpcUrl env = Inr u) \<and>
        (\<exists>t. he_total env = Inr t) \<and> (\<exists>n. he_failedEvents env = Inr n \<and> n \<le> 100)"
  proof -
    from that obtain h u t n where
      "(\<exists>e. he_contracts env = Inl e) \<or> (\<exists>e. he_allProgress env = Inl e) \<or>
       (\<exists>e. he_currentBlock env = Inl e)"
      "he_latestBlock env = Inr h" "he_rpcUrl env = Inr u" "he_total env = Inr t"
      "he_failedEvents env = Inr n" "n \<le> 100"
      by blast
    from indexing_failure_unseen [OF this] show ?thesis
      using getSystemHealth_returned [OF Inr] by auto
  qed
  show ?thesis
    using getSystemHealth_returned [OF Inr] Inr chain db unseen by auto
qed

theorem getSystemHealth_never_throws_witness:
  "(\<exists>r. getSystemHealth (sample_health (Inl (Error ''rpc down'')) (Inl (Error ''no config'')) (Inr None))
          = Inr r \<and> hs_status r = unhealthy \<and> hs_issues r = [''System health check failed'']) \<and>
   (\<exists>r. getSystemHealth (sample_health (Inl (Error ''rpc down'')) (Inr (Some ''http://rpc'')) (Inr None))
          = Inr r \<and> hs_status r = unhealthy \<and> hs_issues r \<noteq> []) \<and>
   (\<exists>r. getSystemHealth (sample_health (Inr 400) (Inr (Some ''http://rpc'')) (Inl (Error ''db down'')))
          = Inr r \<and> hs_status r = unhealthy \<and> hs_issues r \<noteq> []) \<and>
   (\<exists>r. getSystemHealth
           ((sample_health (Inr 400) (Inr (Some ''http://rpc'')) (Inr None))
              \<lparr>he_currentBlock := Inl (Error ''rpc down'')\<rparr>)
          = Inr r \<and> hs_status r = healthy \<and> hs_issues r = [])"
proof -
  have 1: "getSystemHealth_try
             (sample_health (Inl (Error ''rpc down'')) (Inl (Error ''no config'')) (Inr None))
           = Inl (Error ''no config'')"
    by (simp add: getSystemHealth_try_def checkBlockchainHealth_def sample_health_def)
  have 2: "he_latestBlock
             (sample_health (Inl (Error ''rpc down'')) (Inr (Some ''http://rpc'')) (Inr None))
           = Inl (Error ''rpc down'')"
    by (simp add: sample_health_def)
  have 3: "he_total
             (sample_health (Inr 400) (Inr (Some ''http://rpc'')) (Inl (Error ''db down'')))
           = Inl (Error ''db down'')"
    by (simp add: sample_health_def)
  have A: "\<exists>r. getSystemHealth (sample_health (Inl (Error ''rpc down'')) (Inl (Error ''no config'')) (Inr None))
          = Inr r \<and> hs_status r = unhealthy \<and> hs_issues r = [''System health check failed'']"
    using getSystemHealth_never_throws
            [of "sample_health (Inl (Error ''rpc down'')) (Inl (Error ''no config'')) (Inr None)"] 1
    by blast
  have B: "\<exists>r. getSystemHealth (sample_health (Inl (Error ''rpc down'')) (Inr (Some ''http://rpc'')) (Inr None))
          = Inr r \<and> hs_status r = unhealthy \<and> hs_issues r \<noteq> []"
    using getSystemHealth_never_throws
            [of "sample_health (Inl (Error ''rpc down'')) (Inr (Some ''http://rpc'')) (Inr None)"] 2
    by (metis empty_iff empty_set list.distinct(1))
  have C: "\<exists>r. getSystemHealth (sample_health (Inr 400) (Inr (Some ''http://rpc'')) (Inl (Error ''db down'')))
          = Inr r \<and> hs_status r = unhealthy \<and> hs_issues r \<noteq> []"
    using getSystemHealth_never_throws
            [of "sample_health (Inr 400) (Inr (Some ''http://rpc'')) (Inl (Error ''db down''))"] 3
    by (metis empty_iff empty_set list.distinct(1))
  have D: "\<exists>r. getSystemHealth
           ((sample_health (Inr 400) (Inr (Some ''http://rpc'')) (Inr None))
              \<lparr>he_currentBlock := Inl (Error ''rpc down'')\<rparr>)
          = Inr r \<and> hs_status r = healthy \<and> hs_issues r = []"
    using getSystemHealth_never_throws
            [of "(sample_health (Inr 400) (Inr (Some ''http://rpc'')) (Inr None))
              \<lparr>he_currentBlock := Inl (Error ''rpc down'')\<rparr>"]
    by (auto simp: sample_health_def)
  show ?thesis
    using A B C D by blast
qed

text \<open>
  The progress repository throws on \<open>find()\<close> while every other call succeeds: the report
  is \<open>healthy\<close> and its list of issues is empty.
\<close>

theorem getSystemHealth_find_fails_counterexample:
  "map_sum id (\<lambda>r. (hs_status r, hs_issues r))
     (getSystemHealth
        ((sample_health (Inr 400) (Inr (Some ''http://rpc'')) (Inr None))
           \<lparr>he_allProgress := Inl (Error ''db down'')\<rparr>))
   = Inr (healthy, [])"
  by (simp add: getSystemHealth_def getSystemHealth_try_def checkBlockchainHealth_def
      checkDatabaseHealth_def checkIndexingHealth_def health_rule_def sample_health_def Let_def)

subsection \<open>Shutdown drain\<close>












subsection \<open>Startup recovery\<close>

lemma find_distinct_key:
  assumes "distinct (map f xs)" and "x \<in> set xs"
  shows "find (\<lambda>y. f y = f x) xs = Some x"
  using assms by (induction xs) (auto simp: image_iff)

lemma getContractConfig_own:
  assumes "distinct (map (\<lambda>kc. toLowerCase (cc_address (snd kc))) (contracts cfg))"
    and "c \<in> set (map snd (contracts cfg))"
  shows "getContractConfig cfg (cc_address c) = Some c \<or>
         getContractConfig cfg (cc_address c) = None"
proof -
  obtain k where k: "(k, c) \<in> set (contracts cfg)"
    using assms(2) by auto
  have found: "find (\<lambda>y. toLowerCase (cc_address (snd y)) = toLowerCase (cc_address (snd (k, c))))
          (contracts cfg) = Some (k, c)"
    using assms(1) k by (rule find_distinct_key)
  have eq: "(\<lambda>(key, c'). toLowerCase (cc_address c') = toLowerCase (cc_address c))
          = (\<lambda>y. toLowerCase (cc_address (snd y)) = toLowerCase (cc_address (snd (k, c))))"
    by auto
  show ?thesis
    unfolding getContractConfig_def eq found by simp
qed

lemma resumed_from_refl: "resumed_from xs rows rows"
  by (simp add: resumed_from_def list_all2_same)

lemma resumed_from_keys:
  assumes "resumed_from xs rows rows'"
  shows "findOne_progress a c rows' = None \<longleftrightarrow> findOne_progress a c rows = None"
  using assms unfolding resumed_from_def findOne_progress_def
  by (induction rows rows' rule: list_all2_induct) auto

lemma resumed_from_mark:
  assumes "x \<in> set xs"
  shows "resumed_from xs rows
           (update_where (is_entity (toLowerCase (cc_address x)) (cc_chainId x))
              (\<lambda>r. r\<lparr>ip_isSyncing := True\<rparr>) rows)"
  using assms
  by (auto simp: resumed_from_def update_where_def list_all2_map2 list_ex_iff
      intro!: list_all2_same [THEN iffD2])

lemma resumed_from_trans:
  assumes "resumed_from xs r1 r2" and "resumed_from xs r2 r3"
  shows "resumed_from xs r1 r3"
proof -
  have "list_all2 (\<lambda>r r'. r' = r \<or>
                  (r' = r\<lparr>ip_isSyncing := True\<rparr> \<and>
                   list_ex (\<lambda>x. is_entity (toLowerCase (cc_address x)) (cc_chainId x) r) xs))
          r1 r3"
    using assms unfolding resumed_from_def
  proof (induction r1 r2 arbitrary: r3 rule: list_all2_induct)
    case Nil
    then show ?case by simp
  next
    case (Cons a r1 b r2)
    then obtain c r3' where r3: "r3 = c # r3'"
      by (cases r3) auto
    show ?case
      using Cons r3 by (auto simp: is_entity_def list_ex_iff)
  qed
  then show ?thesis by (simp add: resumed_from_def)
qed

lemma resumed_from_mono:
  assumes "resumed_from xs rows rows'" and "set xs \<subseteq> set ys"
  shows "resumed_from ys rows rows'"
  using assms unfolding resumed_from_def
  by (auto simp: list_ex_iff elim!: list_all2_mono)

lemma distinct_address_same:
  assumes "distinct (map (\<lambda>kc. toLowerCase (cc_address (snd kc))) (contracts cfg))"
    and "c \<in> set (map snd (contracts cfg))" and "c' \<in> set (map snd (contracts cfg))"
    and "cc_address c' = cc_address c"
  shows "c' = c"
proof -
  obtain k k' where k: "(k, c) \<in> set (contracts cfg)" "(k', c') \<in> set (contracts cfg)"
    using assms(2,3) by auto
  have "inj_on (\<lambda>kc. toLowerCase (cc_address (snd kc))) (set (contracts cfg))"
    using assms(1) by (simp add: distinct_map)
  moreover have "toLowerCase (cc_address (snd (k', c'))) = toLowerCase (cc_address (snd (k, c)))"
    using assms(4) by simp
  ultimately have "(k', c') = (k, c)"
    using k(2) k(1) by (rule inj_onD)
  then show ?thesis by simp
qed

lemma startIndexing_unknown:
  assumes "getContractConfig cfg a = None"
  shows "snd (startIndexing cfg ldg a s) = s"
  using assms by (simp add: startIndexing_def)

lemma startIndexing_existing:
  assumes "getContractConfig cfg a = Some c"
    and "findOne_progress (toLowerCase a) (cc_chainId c) (indexingProgressRepository s) \<noteq> None"
  shows "indexingProgressRepository (snd (startIndexing cfg ldg a s)) = indexingProgressRepository s \<or>
         indexingProgressRepository (snd (startIndexing cfg ldg a s)) =
           update_where (is_entity (toLowerCase a) (cc_chainId c))
             (\<lambda>r. r\<lparr>ip_isSyncing := True\<rparr>) (indexingProgressRepository s)"
  using assms
  by (auto simp: startIndexing_def updateSyncingStatus_def split: sum.splits)

lemma resumeContractIndexing_step:
  assumes "getContractConfig cfg (cc_address x) = Some x \<or>
           getContractConfig cfg (cc_address x) = None"
  shows "\<exists>s'. resumeContractIndexing cfg ldg x (calls, s) =
           (calls @ map (StartIndexingCall \<circ> cc_address) (filter (has_row s) [x]), s') \<and>
           resumed_from [x] (indexingProgressRepository s) (indexingProgressRepository s')"
proof (cases "has_row s x")
  case False
  then show ?thesis
    by (auto simp: resumeContractIndexing_def has_row_def resumed_from_refl)
next
  case True
  then have row: "findOne_progress (toLowerCase (cc_address x)) (cc_chainId x)
                    (indexingProgressRepository s) \<noteq> None"
    by (simp add: has_row_def)
  let ?s' = "snd (startIndexing cfg ldg (cc_address x) s)"
  have "resumeContractIndexing cfg ldg x (calls, s) =
          (calls @ [StartIndexingCall (cc_address x)], ?s')"
    using row by (auto simp: resumeContractIndexing_def)
  moreover have "resumed_from [x] (indexingProgressRepository s) (indexingProgressRepository ?s')"
  proof (cases "getContractConfig cfg (cc_address x)")
    case None
    then show ?thesis
      by (simp add: startIndexing_unknown resumed_from_refl)
  next
    case (Some y)
    then have "getContractConfig cfg (cc_address x) = Some x"
      using assms by simp
    from startIndexing_existing [OF this row, of ldg] show ?thesis
      using resumed_from_mark [of x "[x]" "indexingProgressRepository s"]
      by (auto simp: resumed_from_refl)
  qed
  ultimately show ?thesis
    using True by simp
qed

lemma has_row_resumed:
  assumes "resumed_from xs (indexingProgressRepository s) (indexingProgressRepository s')"
  shows "has_row s' = has_row s"
  using resumed_from_keys [OF assms] by (auto simp: has_row_def fun_eq_iff)

lemma fold_resume:
  assumes "\<forall>x \<in> set xs. getContractConfig cfg (cc_address x) = Some x \<or>
                         getContractConfig cfg (cc_address x) = None"
  shows "\<exists>s'. fold (resumeContractIndexing cfg ldg) xs (calls, s) =
           (calls @ map (StartIndexingCall \<circ> cc_address) (filter (has_row s) xs), s') \<and>
           resumed_from xs (indexingProgressRepository s) (indexingProgressRepository s')"
  using assms
proof (induction xs arbitrary: calls s)
  case Nil
  then show ?case by (simp add: resumed_from_refl)
next
  case (Cons x xs)
  let ?c1 = "calls @ map (StartIndexingCall \<circ> cc_address) (filter (has_row s) [x])"
  obtain s1 where s1: "resumeContractIndexing cfg ldg x (calls, s) = (?c1, s1)"
    "resumed_from [x] (indexingProgressRepository s) (indexingProgressRepository s1)"
    using resumeContractIndexing_step [of cfg x ldg calls s] Cons.prems by auto
  obtain s' where s': "fold (resumeContractIndexing cfg ldg) xs (?c1, s1) =
      (?c1 @ map (StartIndexingCall \<circ> cc_address) (filter (has_row s1) xs), s')"
    "resumed_from xs (indexingProgressRepository s1) (indexingProgressRepository s')"
    using Cons.IH [of ?c1 s1] Cons.prems by auto
  have rows: "has_row s1 = has_row s"
    using s1(2) by (rule has_row_resumed)
  have "resumed_from (x # xs) (indexingProgressRepository s) (indexingProgressRepository s')"
    using resumed_from_mono [OF s1(2), of "x # xs"] resumed_from_mono [OF s'(2), of "x # xs"]
    by (auto intro: resumed_from_trans)
  moreover have "fold (resumeContractIndexing cfg ldg) (x # xs) (calls, s) =
      (calls @ map (StartIndexingCall \<circ> cc_address) (filter (has_row s) (x # xs)), s')"
    using s1(1) s'(1) rows by simp
  ultimately show ?case by blast
qed

lemma resetStuckSyncingStates_rows:
  "\<forall>r \<in> set (indexingProgressRepository (resetStuckSyncingStates s)). \<not> ip_isSyncing r"
  by (auto simp: resetStuckSyncingStates_def update_where_def)

lemma has_row_reset: "has_row (resetStuckSyncingStates s) = has_row s"
proof -
  have "find (\<lambda>r. ip_contractAddress r = a \<and> ip_chainId r = c)
          (update_where (\<lambda>r. ip_isSyncing r = True)
             (\<lambda>r. r\<lparr>ip_isSyncing := False, ip_updatedAt := clock s\<rparr>)
             (indexingProgressRepository s))
        = map_option (\<lambda>r. if ip_isSyncing r = True
                           then r\<lparr>ip_isSyncing := False, ip_updatedAt := clock s\<rparr> else r)
            (find (\<lambda>r. ip_contractAddress r = a \<and> ip_chainId r = c)
               (indexingProgressRepository s))" for a c
    by (rule find_update_where) simp
  then show ?thesis
    by (simp add: has_row_def fun_eq_iff resetStuckSyncingStates_def findOne_progress_def)
qed

text \<open>
  C6 (amended). With no two configured contracts sharing an address (case ignored), the
  recovery pass first clears \<open>isSyncing\<close> on every row and then calls \<open>startIndexing\<close>,
  in configuration order, for exactly the enabled contracts that have a progress row.
  The progress table afterwards is the cleared table, except that rows of enabled
  contracts may be marked syncing again: no row is created. An enabled contract without
  a row still has none, and no \<open>startIndexing\<close> call was made for it.
\<close>

theorem resumeIndexing_recovery:
  assumes "distinct (map (\<lambda>kc. toLowerCase (cc_address (snd kc))) (contracts cfg))"
  shows "fst (resumeIndexing cfg ldg s) =
           ResetStuckCall #
           map (StartIndexingCall \<circ> cc_address)
             (filter (has_row s) (filter cc_enabled (map snd (contracts cfg)))) \<and>
         (\<forall>r \<in> set (indexingProgressRepository (resetStuckSyncingStates s)). \<not> ip_isSyncing r) \<and>
         resumed_from (filter cc_enabled (map snd (contracts cfg)))
           (indexingProgressRepository (resetStuckSyncingStates s))
           (indexingProgressRepository (snd (resumeIndexing cfg ldg s))) \<and>
         (\<forall>c \<in> set (map snd (contracts cfg)).
            cc_enabled c \<and> \<not> has_row s c \<longrightarrow>
              \<not> has_row (snd (resumeIndexing cfg ldg s)) c \<and>
              StartIndexingCall (cc_address c) \<notin> set (fst (resumeIndexing cfg ldg s)))"
proof -
  let ?en = "filter cc_enabled (map snd (contracts cfg))"
  let ?s1 = "resetStuckSyncingStates s"
  have own: "\<forall>x \<in> set ?en. getContractConfig cfg (cc_address x) = Some x \<or>
                           getContractConfig cfg (cc_address x) = None"
    using getContractConfig_own [OF assms] by auto
  obtain s' where s': "fold (resumeContractIndexing cfg ldg) ?en ([ResetStuckCall], ?s1) =
      ([ResetStuckCall] @ map (StartIndexingCall \<circ> cc_address) (filter (has_row ?s1) ?en), s')"
    "resumed_from ?en (indexingProgressRepository ?s1) (indexingProgressRepository s')"
    using fold_resume [OF own, of ldg "[ResetStuckCall]" ?s1] by blast
  have run: "resumeIndexing cfg ldg s =
      (ResetStuckCall # map (StartIndexingCall \<circ> cc_address) (filter (has_row s) ?en), s')"
    using s'(1) by (simp add: resumeIndexing_def Let_def has_row_reset)
  have rows: "has_row s' = has_row s"
    using has_row_resumed [OF s'(2)] by (simp add: has_row_reset)
  have inj: "c' = c" if "c \<in> set (map snd (contracts cfg))" "c' \<in> set (map snd (contracts cfg))"
    "cc_address c' = cc_address c" for c c'
    using distinct_address_same [OF assms that] .
  have untouched: "\<not> has_row s' c \<and>
      StartIndexingCall (cc_address c) \<notin>
        set (ResetStuckCall # map (StartIndexingCall \<circ> cc_address) (filter (has_row s) ?en))"
    if c: "c \<in> set (map snd (contracts cfg))" "cc_enabled c \<and> \<not> has_row s c" for c
  proof -
    have differ: "cc_address c' \<noteq> cc_address c" if "c' \<in> set ?en" "has_row s c'" for c'
    proof
      assume "cc_address c' = cc_address c"
      moreover have "c' \<in> set (map snd (contracts cfg))" using that(1) by simp
      ultimately have "c' = c" using inj [OF c(1)] by blast
      then show False using that(2) c(2) by simp
    qed
    have "StartIndexingCall (cc_address c) \<notin>
        set (map (StartIndexingCall \<circ> cc_address) (filter (has_row s) ?en))"
    proof
      assume "StartIndexingCall (cc_address c) \<in>
        set (map (StartIndexingCall \<circ> cc_address) (filter (has_row s) ?en))"
      then obtain c' where "c' \<in> set ?en" "has_row s c'" "cc_address c = cc_address c'"
        by auto
      then show False using differ [of c'] by simp
    qed
    then show ?thesis using rows c(2) by simp
  qed
  show ?thesis
    using run s'(2) resetStuckSyncingStates_rows [of s] untouched by simp
qed

theorem resumeIndexing_recovery_witness:
  "fst (resumeIndexing
          (sample_config [(''usdc'', sample_contract ''0xAB'' 137),
                          (''dai'', sample_contract ''0xcd'' 137)])
          (sample_ledger 400 []) (sample_system [sample_row 99 True]))
     = [ResetStuckCall, StartIndexingCall ''0xAB''] \<and>
   \<not> has_row (snd (resumeIndexing
          (sample_config [(''usdc'', sample_contract ''0xAB'' 137),
                          (''dai'', sample_contract ''0xcd'' 137)])
          (sample_ledger 400 []) (sample_system [sample_row 99 True])))
      (sample_contract ''0xcd'' 137) \<and>
   StartIndexingCall ''0xcd'' \<notin> set (fst (resumeIndexing
          (sample_config [(''usdc'', sample_contract ''0xAB'' 137),
                          (''dai'', sample_contract ''0xcd'' 137)])
          (sample_ledger 400 []) (sample_system [sample_row 99 True])))"
  using resumeIndexing_recovery
    [of "sample_config [(''usdc'', sample_contract ''0xAB'' 137),
                        (''dai'', sample_contract ''0xcd'' 137)]"
        "sample_ledger 400 []" "sample_system [sample_row 99 True]"]
  by (simp add: sample_config_def sample_contract_def sample_system_def sample_row_def
        has_row_def findOne_progress_def toLowerCase_def lowerChar_def)

text \<open>
  Two enabled contracts with one address on two chains, and a row for the second only:
  \<open>startIndexing\<close> looks the configuration up by address, finds the first contract, and
  creates a row and a job for it, the contract that had no row.
\<close>

theorem resumeIndexing_same_address_counterexample:
  "\<not> has_row (sample_system [(sample_row 99 False)\<lparr>ip_chainId := 1\<rparr>])
       (sample_contract ''0xab'' 137) \<and>
   has_row (snd (resumeIndexing
          (sample_config [(''a'', sample_contract ''0xab'' 137),
                          (''b'', sample_contract ''0xab'' 1)])
          (sample_ledger 400 []) (sample_system [(sample_row 99 False)\<lparr>ip_chainId := 1\<rparr>])))
     (sample_contract ''0xab'' 137) \<and>
   map job_data (waiting (indexingQueue (snd (resumeIndexing
          (sample_config [(''a'', sample_contract ''0xab'' 137),
                          (''b'', sample_contract ''0xab'' 1)])
          (sample_ledger 400 []) (sample_system [(sample_row 99 False)\<lparr>ip_chainId := 1\<rparr>])))))
     = [StartIndexingData ''0xab'' 137 [''Transfer'', ''Approval'']]"
  by (simp add: resumeIndexing_def resumeContractIndexing_def resetStuckSyncingStates_def
        startIndexing_def getContractConfig_def queue_add_def updateSyncingStatus_def
        sample_config_def sample_contract_def sample_system_def sample_row_def
        sample_ledger_def sample_queue_def has_row_def findOne_progress_def update_where_def
        is_entity_def toLowerCase_def lowerChar_def Let_def)

end
